theory Spec2Isabelle
  imports Complex_Main "HOL-Library.Char_ord" "HOL-Library.List_Lexorder"
    "HOL-Library.Product_Lexorder" "HOL-Library.Log_Nat"
begin

section \<open>The population dashboard's transform pipeline (main.py)\<close>

text \<open>
  The script loads one table of annual state population estimates, keeps the state-level
  rows, melts the year columns into long form, and derives a national total, a per-year
  rank, a series for one focus state, a few summary scalars and a comparison frame.

  Numbers. Population cells are 64-bit integer columns of the data frame. A cell is an
  \<^typ>\<open>int\<close>; a sum or difference that pandas computes in 64-bit integers is wrapped
  (\<open>wrap64\<close>), and an integer that pandas stores in a 64-bit float is rounded to the
  nearest float (\<open>f64_of_int\<close>). A float column that only ever holds an integer or the
  missing marker is an \<open>int option\<close> / \<open>nat option\<close> (\<open>None\<close> is the missing value
  NaN). A float that is the result of a division is a \<open>float64\<close>: a real number or one
  of the three special values; the rounding of quotients, and of the operands that go
  into them, is not modelled.

  Text. A state name is only compared and ordered, and is a \<^typ>\<open>string\<close>. A column
  label is searched for digits, which Python decides by code point, so a label is the
  list of its code points.
\<close>

subsection \<open>64-bit integers and the integers a float holds\<close>

definition wrap64 :: "int \<Rightarrow> int" where
  "wrap64 n = (n + 2 ^ 63) mod 2 ^ 64 - 2 ^ 63"

text \<open>
  The integer held by the float nearest to an integer: beyond 53 significant bits the low
  bits are rounded away, a tie going to the even significand.
\<close>

definition f64_of_int :: "int \<Rightarrow> int" where
  "f64_of_int n =
     (let a = \<bar>n\<bar>;
          e = nat (bitlen a - 53);
          q = a div 2 ^ e;
          r = a mod 2 ^ e
      in sgn n * ((if 2 ^ e < 2 * r \<or> (2 * r = 2 ^ e \<and> odd q) then q + 1 else q) * 2 ^ e))"

subsection \<open>Float values with the special cases of division\<close>

datatype float64 = Fin real | PInf | NInf | NaN

text \<open>
  Division as numpy performs it on float arrays and scalars: no exception, a non-zero
  value divided by zero is an infinity with the sign of the numerator (every zero
  denominator here comes from an integer, so it is +0.0), and 0/0 is NaN.
\<close>

fun fdiv :: "float64 \<Rightarrow> float64 \<Rightarrow> float64" where
  "fdiv NaN _ = NaN"
| "fdiv _ NaN = NaN"
| "fdiv (Fin a) (Fin b) =
     (if b \<noteq> 0 then Fin (a / b) else if a = 0 then NaN else if 0 < a then PInf else NInf)"
| "fdiv (Fin a) PInf = Fin 0"
| "fdiv (Fin a) NInf = Fin 0"
| "fdiv PInf (Fin b) = (if 0 \<le> b then PInf else NInf)"
| "fdiv NInf (Fin b) = (if 0 \<le> b then NInf else PInf)"
| "fdiv PInf PInf = NaN"
| "fdiv PInf NInf = NaN"
| "fdiv NInf PInf = NaN"
| "fdiv NInf NInf = NaN"

fun fsub :: "float64 \<Rightarrow> float64 \<Rightarrow> float64" where
  "fsub NaN _ = NaN"
| "fsub _ NaN = NaN"
| "fsub (Fin a) (Fin b) = Fin (a - b)"
| "fsub (Fin a) PInf = NInf"
| "fsub (Fin a) NInf = PInf"
| "fsub PInf PInf = NaN"
| "fsub PInf _ = PInf"
| "fsub NInf NInf = NaN"
| "fsub NInf _ = NInf"


fun fmul :: "float64 \<Rightarrow> float64 \<Rightarrow> float64" where
  "fmul NaN _ = NaN"
| "fmul _ NaN = NaN"
| "fmul (Fin a) (Fin b) = Fin (a * b)"
| "fmul (Fin a) PInf = (if a = 0 then NaN else if 0 < a then PInf else NInf)"
| "fmul (Fin a) NInf = (if a = 0 then NaN else if 0 < a then NInf else PInf)"
| "fmul PInf (Fin b) = (if b = 0 then NaN else if 0 < b then PInf else NInf)"
| "fmul NInf (Fin b) = (if b = 0 then NaN else if 0 < b then NInf else PInf)"
| "fmul PInf PInf = PInf"
| "fmul PInf NInf = NInf"
| "fmul NInf PInf = NInf"
| "fmul NInf NInf = PInf"

text \<open>
  \<open>x ** e\<close> for a positive exponent \<open>e\<close> that is not an integer (the script's exponent
  is \<open>1/9\<close>): a negative base gives NaN, both infinities give \<open>+inf\<close>.
\<close>

fun fpow :: "float64 \<Rightarrow> real \<Rightarrow> float64" where
  "fpow NaN e = NaN"
| "fpow (Fin a) e = (if a < 0 then NaN else Fin (a powr e))"
| "fpow PInf e = PInf"
| "fpow NInf e = PInf"


definition of_cell :: "int \<Rightarrow> float64" where
  "of_cell n = Fin (real_of_int n)"

definition of_opt :: "int option \<Rightarrow> float64" where
  "of_opt v = (case v of None \<Rightarrow> NaN | Some n \<Rightarrow> of_cell n)"

subsection \<open>Tables\<close>

datatype error = ValueError | IndexError | KeyError

type_synonym label = "int list"

definition ascii :: "string \<Rightarrow> label" where
  "ascii s = map of_char s"

text \<open>
  A row of the raw table: the three columns the script names, and the integer value of
  every other column by its label. \<open>columns\<close> lists the labels of the table in file order.
\<close>

record raw_record =
  NAME :: string
  STATE :: int
  SUMLEV :: int
  cell :: "label \<Rightarrow> int"

record raw_table =
  columns :: "label list"
  rows :: "raw_record list"

text \<open>The two-column frame \<open>[year, population]\<close>, and the tidy rows that extend it.\<close>

record yp =
  year :: int
  population :: int

record observation = yp +
  state :: string
  state_code :: int

record ranked = observation +
  rank :: nat

text \<open>
  A row of the focus-state frame \<open>ny\<close> after the two joins and the derived columns.
  The frame's \<open>rank\<close> column is the field \<open>rank_ny\<close> here (the name \<open>rank\<close> is the
  field of the tidy rows); its \<open>share_of_us_%\<close> column is \<open>share_of_us\<close>.
\<close>

record ny_row = yp +
  us_population :: "int option"
  rank_ny :: "nat option"
  share_of_us :: float64
  yoy_change :: "int option"
  yoy_pct :: float64

record summary =
  peak_pop :: int
  peak_year :: int
  cagr :: float64
  abs_change_2010_2019 :: int

subsection \<open>Filter and reshape (lines 23 to 35)\<close>

definition df_states :: "raw_table \<Rightarrow> raw_record list" where
  "df_states t = filter (\<lambda>r. SUMLEV r = 40) (rows t)"

definition startswith :: "label \<Rightarrow> label \<Rightarrow> bool" where
  "startswith s p = (take (length p) s = p)"

definition pop_cols :: "raw_table \<Rightarrow> label list" where
  "pop_cols t = filter (\<lambda>c. startswith c (ascii ''POPESTIMATE20'')) (columns t)"

text \<open>
  \<open>melt\<close> with \<open>id_vars = [NAME, STATE]\<close>: one block of rows per value column, in column
  order, each block in row order. A melted row is (NAME, STATE, variable, value).
\<close>

definition melt :: "raw_record list \<Rightarrow> label list \<Rightarrow> (string \<times> int \<times> label \<times> int) list" where
  "melt rs cs = concat (map (\<lambda>c. map (\<lambda>r. (NAME r, STATE r, c, cell r c)) rs) cs)"

text \<open>
  Python's \<open>\d\<close> and \<open>int()\<close> accept every decimal digit of Unicode (category Nd), not
  only the ASCII ones. These digits come in runs of ten consecutive code points with the
  values 0 to 9; the list holds the first code point of each run (Unicode 14.0, the
  table of CPython 3.11). Code points below 58 are decided without the list.
\<close>

definition nd_starts :: "int list" where
  "nd_starts =
     [48, 1632, 1776, 1984, 2406, 2534, 2662, 2790, 2918, 3046, 3174, 3302, 3430, 3558,
      3664, 3792, 3872, 4160, 4240, 6112, 6160, 6470, 6608, 6784, 6800, 6992, 7088, 7232,
      7248, 42528, 43216, 43264, 43472, 43504, 43600, 44016, 65296, 66720, 68912, 69734,
      69872, 69942, 70096, 70384, 70736, 70864, 71248, 71360, 71472, 71904, 72016, 72784,
      73040, 73120, 92768, 92864, 93008, 120782, 120792, 120802, 120812, 120822, 123200,
      123632, 125264, 130032]"

definition digit_value :: "int \<Rightarrow> int option" where
  "digit_value c =
     (if c < 58 then (if 48 \<le> c then Some (c - 48) else None)
      else case filter (\<lambda>s. s \<le> c \<and> c < s + 10) nd_starts of
             [] \<Rightarrow> None
           | s # _ \<Rightarrow> Some (c - s))"

definition is_digit :: "int \<Rightarrow> bool" where
  "is_digit c = (digit_value c \<noteq> None)"

text \<open>\<open>str.extract(r'(\d{4})')\<close>: the leftmost run of four digits, if there is one.\<close>

fun extract_d4 :: "label \<Rightarrow> label option" where
  "extract_d4 (a # b # c # d # s) =
     (if is_digit a \<and> is_digit b \<and> is_digit c \<and> is_digit d then Some [a, b, c, d]
      else extract_d4 (b # c # d # s))"
| "extract_d4 _ = None"

definition int_of_digits :: "label \<Rightarrow> int" where
  "int_of_digits s =
     foldl (\<lambda>a c. 10 * a + (case digit_value c of None \<Rightarrow> 0 | Some v \<Rightarrow> v)) 0 s"

text \<open>The integer year of a label that has a four-digit run.\<close>

definition label_year :: "label \<Rightarrow> int" where
  "label_year c = int_of_digits (case extract_d4 c of None \<Rightarrow> [] | Some d \<Rightarrow> d)"

text \<open>
  Lines 30 to 35. \<open>astype(int)\<close> raises when a label of a melted row has no four-digit
  run (the extracted value is then missing).
\<close>

definition df_long :: "raw_table \<Rightarrow> error + observation list" where
  "df_long t =
     (let m = melt (df_states t) (pop_cols t)
      in if list_ex (\<lambda>(n, s, c, v). extract_d4 c = None) m then Inl ValueError
         else Inr (map (\<lambda>(n, s, c, v).
                \<lparr>year = label_year c, population = v, state = n, state_code = s\<rparr>) m))"

subsection \<open>National total and rank (lines 43 to 51)\<close>

text \<open>
  \<open>groupby('year').sum()\<close>: one row per year present, keys in ascending order; the sum
  is accumulated in 64-bit integers.
\<close>

definition us :: "observation list \<Rightarrow> (int \<times> int) list" where
  "us dl = map (\<lambda>y. (y, wrap64 (sum_list (map population (filter (\<lambda>r. year r = y) dl)))))
             (sort (remdups (map year dl)))"

text \<open>
  \<open>rank(ascending=False, method='min')\<close> within one group: the values are put in
  descending order, and a value gets the lowest (1-based) position that any member of its
  tie group occupies.
\<close>

definition rank_min_desc :: "int list \<Rightarrow> int \<Rightarrow> nat" where
  "rank_min_desc vals v = Suc (length (takeWhile (\<lambda>u. u \<noteq> v) (rev (sort vals))))"

definition year_group :: "observation list \<Rightarrow> int \<Rightarrow> int list" where
  "year_group dl y = map population (filter (\<lambda>q. year q = y) dl)"

definition with_rank :: "observation list \<Rightarrow> ranked list" where
  "with_rank dl =
     map (\<lambda>r. \<lparr>year = year r, population = population r, state = state r,
               state_code = state_code r,
               rank = rank_min_desc (year_group dl (year r)) (population r)\<rparr>) dl"

definition ny_rank :: "string \<Rightarrow> ranked list \<Rightarrow> (int \<times> nat) list" where
  "ny_rank focus dlr = map (\<lambda>r. (year r, rank r)) (filter (\<lambda>r. state r = focus) dlr)"

subsection \<open>The focus-state series (lines 40 and 54 to 59)\<close>

definition ny_base :: "string \<Rightarrow> observation list \<Rightarrow> yp list" where
  "ny_base focus dl =
     sort_key year (map (\<lambda>r. \<lparr>year = year r, population = population r\<rparr>)
                        (filter (\<lambda>r. state r = focus) dl))"

text \<open>
  \<open>merge(right, on='year', how='left')\<close>: every left row is kept, in order; it is paired
  with each right row of the same year, or with a missing value when there is none.
\<close>

definition join_row :: "('a \<Rightarrow> int) \<Rightarrow> (int \<times> 'b) list \<Rightarrow> 'a \<Rightarrow> ('a \<times> 'b option) list" where
  "join_row k ys x =
     (case filter (\<lambda>(y, v). y = k x) ys of
        [] \<Rightarrow> [(x, None)]
      | ms \<Rightarrow> map (\<lambda>(y, v). (x, Some v)) ms)"

definition merge_left :: "'a list \<Rightarrow> ('a \<Rightarrow> int) \<Rightarrow> (int \<times> 'b) list \<Rightarrow> ('a \<times> 'b option) list" where
  "merge_left xs k ys = concat (map (join_row k ys) xs)"

text \<open>
  \<open>shift(1)\<close>, \<open>diff()\<close> and \<open>pct_change()\<close> on an integer column. \<open>diff()\<close>
  subtracts in 64-bit integers and stores the result in a float column.
\<close>

definition shift :: "int list \<Rightarrow> int option list" where
  "shift xs = (if xs = [] then [] else None # map Some (butlast xs))"

definition diff :: "int list \<Rightarrow> int option list" where
  "diff xs =
     map (\<lambda>(x, p). case p of None \<Rightarrow> None | Some q \<Rightarrow> Some (f64_of_int (wrap64 (x - q))))
         (zip xs (shift xs))"

definition pct_change :: "int list \<Rightarrow> float64 list" where
  "pct_change xs = map (\<lambda>(x, p). fsub (fdiv (of_cell x) (of_opt p)) (Fin 1)) (zip xs (shift xs))"

definition share :: "int \<Rightarrow> int option \<Rightarrow> float64" where
  "share p u = fmul (fdiv (of_cell p) (of_opt u)) (Fin 100)"

text \<open>Line 54: the two left joins, on the national totals and on the focus state's ranks.\<close>

definition joined :: "string \<Rightarrow> observation list \<Rightarrow> ((yp \<times> int option) \<times> nat option) list" where
  "joined focus dl =
     merge_left (merge_left (ny_base focus dl) year (us dl)) (\<lambda>(r, u). year r)
       (ny_rank focus (with_rank dl))"

text \<open>Lines 55 to 59: the share, the year-over-year change and its percentage.\<close>

definition focus_series :: "string \<Rightarrow> observation list \<Rightarrow> ny_row list" where
  "focus_series focus dl =
     (let j = joined focus dl;
          pops = map (\<lambda>((r, u), k). population r) j
      in map (\<lambda>(((r, u), k), (d, c)).
               \<lparr>year = year r, population = population r, us_population = u, rank_ny = k,
                share_of_us = share (population r) u, yoy_change = d,
                yoy_pct = fmul c (Fin 100)\<rparr>)
             (zip j (zip (diff pops) (pct_change pops))))"

definition ny :: "observation list \<Rightarrow> ny_row list" where
  "ny dl = focus_series ''New York'' dl"

subsection \<open>Summary scalars (lines 62 to 70)\<close>

text \<open>
  \<open>peak_row\<close> is a row of the frame taken as one series: its integer and float columns
  are brought to one float type, so the population and the year read from it are the
  integers the floats hold. \<open>last_pop - base_pop\<close> is a difference of 64-bit integers.
\<close>

definition iloc0 :: "'a list \<Rightarrow> error + 'a" where
  "iloc0 xs = (case xs of [] \<Rightarrow> Inl IndexError | x # _ \<Rightarrow> Inr x)"

text \<open>\<open>idxmax()\<close>: the label of the first row holding the maximum; it raises on no rows.\<close>

fun first_index :: "int list \<Rightarrow> int \<Rightarrow> nat" where
  "first_index [] v = 0"
| "first_index (x # xs) v = (if x = v then 0 else Suc (first_index xs v))"

definition idxmax :: "int list \<Rightarrow> error + nat" where
  "idxmax xs = (if xs = [] then Inl ValueError else Inr (first_index xs (Max (set xs))))"

definition loc :: "'a list \<Rightarrow> nat \<Rightarrow> error + 'a" where
  "loc xs i = (if i < length xs then Inr (xs ! i) else Inl KeyError)"

definition years_span :: real where
  "years_span = 9"

definition cagr_of :: "int \<Rightarrow> int \<Rightarrow> float64" where
  "cagr_of base_pop last_pop =
     fmul (fsub (fpow (fdiv (of_cell last_pop) (of_cell base_pop)) (1 / years_span)) (Fin 1))
          (Fin 100)"

definition summarise :: "ny_row list \<Rightarrow> error + summary" where
  "summarise s =
     (case iloc0 (map population (filter (\<lambda>r. year r = 2010) s)) of
        Inl e \<Rightarrow> Inl e
      | Inr base_pop \<Rightarrow>
     (case iloc0 (map population (filter (\<lambda>r. year r = 2019) s)) of
        Inl e \<Rightarrow> Inl e
      | Inr last_pop \<Rightarrow>
     (case idxmax (map population s) of
        Inl e \<Rightarrow> Inl e
      | Inr i \<Rightarrow>
     (case loc s i of
        Inl e \<Rightarrow> Inl e
      | Inr peak_row \<Rightarrow>
          Inr \<lparr>peak_pop = f64_of_int (population peak_row),
               peak_year = f64_of_int (year peak_row),
               cagr = cagr_of base_pop last_pop,
               abs_change_2010_2019 = wrap64 (last_pop - base_pop)\<rparr>))))"

subsection \<open>Comparison frame (lines 73 to 77, 180 and 181)\<close>

definition compare_states :: "string list" where
  "compare_states = [''California'', ''Texas'', ''Florida'', ''New York'']"

text \<open>
  The frame \<open>comp\<close> is \<open>comp_df\<close> here (\<open>comp\<close> is function composition in HOL);
  a row of it is (state, year, population, rank).
\<close>

type_synonym comp_row = "string \<times> int \<times> int \<times> nat"

definition comp_state :: "comp_row \<Rightarrow> string" where
  "comp_state r = fst r"

definition comp_year :: "comp_row \<Rightarrow> int" where
  "comp_year r = fst (snd r)"

definition comp_df :: "ranked list \<Rightarrow> comp_row list" where
  "comp_df dlr =
     sort_key (\<lambda>r. (comp_state r, comp_year r))
       (map (\<lambda>r. (state r, year r, population r, rank r))
            (filter (\<lambda>r. state r \<in> set compare_states) dlr))"

definition last_year :: "comp_row list \<Rightarrow> int option" where
  "last_year c = (if c = [] then None else Some (Max (set (map comp_year c))))"

definition last_pts :: "comp_row list \<Rightarrow> comp_row list" where
  "last_pts c = filter (\<lambda>r. Some (comp_year r) = last_year c) c"

text \<open>The whole derivation from the raw table.\<close>

definition ranked_long :: "raw_table \<Rightarrow> error + ranked list" where
  "ranked_long t = (case df_long t of Inl e \<Rightarrow> Inl e | Inr dl \<Rightarrow> Inr (with_rank dl))"

subsection \<open>Small tables used to run the definitions\<close>

definition raw_row :: "string \<Rightarrow> int \<Rightarrow> int \<Rightarrow> (string \<times> int) list \<Rightarrow> raw_record" where
  "raw_row n s lv cs =
     \<lparr>NAME = n, STATE = s, SUMLEV = lv,
      cell = (\<lambda>c. case map_of (map (\<lambda>(k, v). (ascii k, v)) cs) c of
                   None \<Rightarrow> 0 | Some v \<Rightarrow> v)\<rparr>"

definition demo_ny :: raw_record where
  "demo_ny =
     raw_row ''New York'' 36 40
       [(''CENSUS2010POP'', 7), (''POPESTIMATE2010'', 7), (''POPESTIMATE2019'', 8),
        (''POPESTIMATE2020'', 10)]"

definition demo_table :: raw_table where
  "demo_table =
     \<lparr>columns = map ascii
        [''CENSUS2010POP'', ''POPESTIMATE2010'', ''POPESTIMATE2019'', ''POPESTIMATE2020''],
      rows =
        [raw_row ''United States'' 0 10
           [(''CENSUS2010POP'', 29), (''POPESTIMATE2010'', 30), (''POPESTIMATE2019'', 40),
            (''POPESTIMATE2020'', 44)],
         raw_row ''California'' 6 40
           [(''CENSUS2010POP'', 9), (''POPESTIMATE2010'', 9), (''POPESTIMATE2019'', 12),
            (''POPESTIMATE2020'', 12)],
         raw_row ''Texas'' 48 40
           [(''CENSUS2010POP'', 7), (''POPESTIMATE2010'', 7), (''POPESTIMATE2019'', 10),
            (''POPESTIMATE2020'', 11)],
         demo_ny,
         raw_row ''Florida'' 12 40
           [(''CENSUS2010POP'', 4), (''POPESTIMATE2010'', 5), (''POPESTIMATE2019'', 8),
            (''POPESTIMATE2020'', 9)],
         raw_row ''Ohio'' 39 40
           [(''CENSUS2010POP'', 2), (''POPESTIMATE2010'', 2), (''POPESTIMATE2019'', 2),
            (''POPESTIMATE2020'', 2)]]\<rparr>"

definition obs :: "string \<Rightarrow> int \<Rightarrow> int \<Rightarrow> int \<Rightarrow> observation" where
  "obs n s y p = \<lparr>year = y, population = p, state = n, state_code = s\<rparr>"

definition demo_long :: "observation list" where
  "demo_long =
     [obs ''California'' 6 2010 9, obs ''Texas'' 48 2010 7, obs ''New York'' 36 2010 7,
      obs ''Florida'' 12 2010 5, obs ''Ohio'' 39 2010 2,
      obs ''California'' 6 2019 12, obs ''Texas'' 48 2019 10, obs ''New York'' 36 2019 8,
      obs ''Florida'' 12 2019 8, obs ''Ohio'' 39 2019 2,
      obs ''California'' 6 2020 12, obs ''Texas'' 48 2020 11, obs ''New York'' 36 2020 10,
      obs ''Florida'' 12 2020 9, obs ''Ohio'' 39 2020 2]"

text \<open>A focus state whose population is zero in 2010.\<close>

definition zero_base_long :: "observation list" where
  "zero_base_long =
     [obs ''New York'' 36 2010 0, obs ''Texas'' 48 2010 7,
      obs ''New York'' 36 2011 5, obs ''Texas'' 48 2011 7,
      obs ''New York'' 36 2019 5, obs ''Texas'' 48 2019 8]"



text \<open>
  A focus state whose population passes \<open>2^53\<close>: the change from 2010 to 2011 is
  \<open>2^53 + 1\<close>, and the population of 2011 is \<open>2^53 + 1\<close> as well.
\<close>

definition big_long :: "observation list" where
  "big_long =
     [obs ''New York'' 36 2010 0, obs ''New York'' 36 2011 9007199254740993,
      obs ''New York'' 36 2019 9007199254740992]"

text \<open>Two state rows with the same name.\<close>

definition twin_table :: raw_table where
  "twin_table =
     \<lparr>columns = map ascii [''POPESTIMATE2010'', ''POPESTIMATE2011''],
      rows =
        [raw_row ''New York'' 36 40 [(''POPESTIMATE2010'', 7), (''POPESTIMATE2011'', 8)],
         raw_row ''New York'' 37 40 [(''POPESTIMATE2010'', 3), (''POPESTIMATE2011'', 4)]]\<rparr>"

definition twin_long :: "observation list" where
  "twin_long =
     [obs ''New York'' 36 2010 7, obs ''New York'' 37 2010 3,
      obs ''New York'' 36 2011 8, obs ''New York'' 37 2011 4]"

text \<open>Two population columns whose labels have the same leftmost four digits.\<close>

definition collide_table :: raw_table where
  "collide_table =
     \<lparr>columns = map ascii [''POPESTIMATE2010'', ''POPESTIMATE20100''],
      rows =
        [raw_row ''New York'' 36 40 [(''POPESTIMATE2010'', 7), (''POPESTIMATE20100'', 3)]]\<rparr>"


section \<open>64-bit integers and floats\<close>

lemma wrap64_id: "- (2 ^ 63) \<le> n \<Longrightarrow> n < 2 ^ 63 \<Longrightarrow> wrap64 n = n"
  by (simp add: wrap64_def)

lemma f64_of_int_small:
  assumes "\<bar>n\<bar> < 2 ^ 53"
  shows "f64_of_int n = n"
proof -
  have "bitlen \<bar>n\<bar> \<le> 53" using assms by (simp add: bitlen_le_iff_power)
  then have "nat (bitlen \<bar>n\<bar> - 53) = 0" by simp
  then show ?thesis by (simp add: f64_of_int_def Let_def mult_sgn_abs)
qed

lemma f64_of_int_id:
  assumes "\<bar>n\<bar> \<le> 2 ^ 53"
  shows "f64_of_int n = n"
proof (cases "\<bar>n\<bar> < 2 ^ 53")
  case True
  then show ?thesis by (rule f64_of_int_small)
next
  case False
  with assms have a: "\<bar>n\<bar> = 2 ^ 53" by simp
  have "bitlen (2 ^ 53) = 54" by code_simp
  then have b: "bitlen \<bar>n\<bar> = 54" using a by simp
  have "f64_of_int n = sgn n * \<bar>n\<bar>"
    unfolding f64_of_int_def Let_def b by (simp add: a)
  then show ?thesis by (simp add: mult_sgn_abs)
qed

section \<open>Rank within a year\<close>












section \<open>The focus-state series\<close>

subsection \<open>Left joins\<close>

lemma merge_left_Nil: "merge_left [] k ys = []"
  by (simp add: merge_left_def)

lemma merge_left_Cons: "merge_left (x # xs) k ys = join_row k ys x @ merge_left xs k ys"
  by (simp add: merge_left_def)

lemma join_row_fst: "p \<in> set (join_row k ys x) \<Longrightarrow> fst p = x"
  by (auto simp: join_row_def split: list.splits)

lemma join_row_nonempty: "join_row k ys x \<noteq> []"
  by (auto simp: join_row_def split: list.splits)

lemma join_row_snd:
  assumes "p \<in> set (join_row k ys x)"
  shows "(snd p = None \<and> k x \<notin> fst ` set ys) \<or> (\<exists>v. snd p = Some v \<and> (k x, v) \<in> set ys)"
proof (cases "filter (\<lambda>(y, v). y = k x) ys")
  case Nil
  then have "k x \<notin> fst ` set ys" by (auto simp: filter_empty_conv)
  with assms Nil show ?thesis by (simp add: join_row_def)
next
  case (Cons m ms)
  with assms have "p \<in> (\<lambda>(y, v). (x, Some v)) ` set (filter (\<lambda>(y, v). y = k x) ys)"
    by (simp add: join_row_def)
  then obtain y v where "(y, v) \<in> set (filter (\<lambda>(y, v). y = k x) ys)" "p = (x, Some v)"
    by auto
  then show ?thesis by auto
qed

lemma merge_left_fst: "fst ` set (merge_left xs k ys) = set xs"
proof (induction xs)
  case Nil
  show ?case by (simp add: merge_left_Nil)
next
  case (Cons x xs)
  have "fst ` set (join_row k ys x) = {x}"
    using join_row_fst [of _ k ys x] join_row_nonempty [of k ys x]
    by (cases "join_row k ys x") (auto simp del: split_paired_All)
  with Cons show ?case by (simp add: merge_left_Cons image_Un del: set_map)
qed

lemma merge_left_snd:
  "p \<in> set (merge_left xs k ys) \<Longrightarrow>
   (snd p = None \<and> k (fst p) \<notin> fst ` set ys) \<or> (\<exists>v. snd p = Some v \<and> (k (fst p), v) \<in> set ys)"
proof (induction xs)
  case Nil
  then show ?case by (simp add: merge_left_Nil)
next
  case (Cons x xs)
  from Cons.prems have "p \<in> set (join_row k ys x) \<or> p \<in> set (merge_left xs k ys)"
    by (simp add: merge_left_Cons)
  then show ?case
  proof
    assume b: "p \<in> set (join_row k ys x)"
    then have "fst p = x" by (rule join_row_fst)
    with join_row_snd [OF b] show ?thesis by simp
  next
    assume "p \<in> set (merge_left xs k ys)"
    then show ?thesis by (rule Cons.IH)
  qed
qed

lemma merge_left_sorted:
  "sorted (map k xs) \<Longrightarrow> sorted (map (\<lambda>p. k (fst p)) (merge_left xs k ys))"
proof (induction xs)
  case Nil
  show ?case by (simp add: merge_left_Nil)
next
  case (Cons x xs)
  have b: "\<forall>p \<in> set (join_row k ys x). fst p = x" using join_row_fst [of _ k ys x] by blast
  then have "map (\<lambda>p. k (fst p)) (join_row k ys x) = replicate (length (join_row k ys x)) (k x)"
    by (simp add: map_replicate_const [symmetric] cong: map_cong)
  then have sb: "sorted (map (\<lambda>p. k (fst p)) (join_row k ys x))" by (simp add: sorted_replicate)
  have rest: "sorted (map (\<lambda>p. k (fst p)) (merge_left xs k ys))"
    using Cons by simp
  have le: "\<forall>p \<in> set (join_row k ys x). \<forall>q \<in> set (merge_left xs k ys). k (fst p) \<le> k (fst q)"
  proof (intro ballI)
    fix p q assume "p \<in> set (join_row k ys x)" "q \<in> set (merge_left xs k ys)"
    then have "fst p = x" and "fst q \<in> set xs"
      using b merge_left_fst [of xs k ys] by (blast, force)
    with Cons.prems show "k (fst p) \<le> k (fst q)" by auto
  qed
  show ?case
    using sb rest le by (auto simp add: merge_left_Cons sorted_append)
qed

subsection \<open>Shifted columns and the derived rows\<close>

lemma length_shift: "length (shift xs) = length xs"
  by (simp add: shift_def)

lemma shift_nth:
  "i < length xs \<Longrightarrow> shift xs ! i = (if i = 0 then None else Some (xs ! (i - 1)))"
  by (cases i) (auto simp: shift_def nth_butlast)

lemma length_diff: "length (diff xs) = length xs"
  by (simp add: diff_def length_shift)

lemma length_pct_change: "length (pct_change xs) = length xs"
  by (simp add: pct_change_def length_shift)

lemma diff_nth:
  "i < length xs \<Longrightarrow>
   diff xs ! i = (if i = 0 then None else Some (f64_of_int (wrap64 (xs ! i - xs ! (i - 1)))))"
  by (simp add: diff_def length_shift shift_nth)

lemma pct_change_nth:
  "i < length xs \<Longrightarrow>
   pct_change xs ! i =
     (if i = 0 then NaN else fsub (fdiv (of_cell (xs ! i)) (of_cell (xs ! (i - 1)))) (Fin 1))"
  by (simp add: pct_change_def length_shift shift_nth of_opt_def of_cell_def)

lemma length_focus_series: "length (focus_series focus dl) = length (joined focus dl)"
  by (simp add: focus_series_def Let_def length_diff length_pct_change)

lemma focus_series_nth:
  assumes "i < length (joined focus dl)"
  shows "year (focus_series focus dl ! i) = year (fst (fst (joined focus dl ! i)))"
    and "population (focus_series focus dl ! i) = population (fst (fst (joined focus dl ! i)))"
    and "us_population (focus_series focus dl ! i) = snd (fst (joined focus dl ! i))"
    and "rank_ny (focus_series focus dl ! i) = snd (joined focus dl ! i)"
    and "share_of_us (focus_series focus dl ! i) =
           share (population (fst (fst (joined focus dl ! i)))) (snd (fst (joined focus dl ! i)))"
    and "yoy_change (focus_series focus dl ! i) =
           diff (map (\<lambda>((r, u), k). population r) (joined focus dl)) ! i"
    and "yoy_pct (focus_series focus dl ! i) =
           fmul (pct_change (map (\<lambda>((r, u), k). population r) (joined focus dl)) ! i) (Fin 100)"
  using assms
  by (simp_all add: focus_series_def Let_def length_diff length_pct_change split: prod.splits)

lemma focus_series_pops:
  "map population (focus_series focus dl) = map (\<lambda>((r, u), k). population r) (joined focus dl)"
  by (rule nth_equalityI)
     (simp_all add: length_focus_series focus_series_nth(2) split: prod.splits)


subsection \<open>The joins find a total and a rank for every row\<close>

lemma us_fst: "fst ` set (us dl) = year ` set dl"
  by (force simp: us_def)

lemma us_value: "(y, v) \<in> set (us dl) \<Longrightarrow> v = wrap64 (sum_list (year_group dl y))"
  by (auto simp: us_def year_group_def)

lemma ny_base_set:
  "set (ny_base focus dl) =
     (\<lambda>r. \<lparr>year = year r, population = population r\<rparr>) ` {r \<in> set dl. state r = focus}"
  by (auto simp: ny_base_def)

lemma ny_rank_set:
  "set (ny_rank focus (with_rank dl)) =
     (\<lambda>r. (year r, rank r)) ` {r \<in> set (with_rank dl). state r = focus}"
  by (auto simp: ny_rank_def)

lemma with_rank_focus_years:
  "year ` {r \<in> set (with_rank dl). state r = focus} = year ` {r \<in> set dl. state r = focus}"
  by (force simp: with_rank_def)

lemma joined_row:
  assumes "p \<in> set (joined focus dl)"
  shows "\<exists>o' \<in> set dl. state o' = focus \<and> year o' = year (fst (fst p)) \<and>
           population o' = population (fst (fst p))"
    and "snd (fst p) = Some (wrap64 (sum_list (year_group dl (year (fst (fst p))))))"
    and "\<exists>q \<in> set (with_rank dl). state q = focus \<and> year q = year (fst (fst p)) \<and>
           snd p = Some (rank q)"
proof -
  let ?inner = "merge_left (ny_base focus dl) year (us dl)"
  let ?k = "\<lambda>(r, u). year (r :: yp)"
  from assms have pin: "p \<in> set (merge_left ?inner ?k (ny_rank focus (with_rank dl)))"
    by (simp add: joined_def)
  then have "fst p \<in> fst ` set (merge_left ?inner ?k (ny_rank focus (with_rank dl)))"
    by (rule imageI)
  then have inner: "fst p \<in> set ?inner" by (simp only: merge_left_fst)
  then have "fst (fst p) \<in> fst ` set ?inner" by (rule imageI)
  then have base: "fst (fst p) \<in> set (ny_base focus dl)" by (simp only: merge_left_fst)
  then obtain o' where o': "o' \<in> set dl" "state o' = focus"
    "fst (fst p) = \<lparr>year = year o', population = population o'\<rparr>"
    by (auto simp: ny_base_set)
  then show "\<exists>o' \<in> set dl. state o' = focus \<and> year o' = year (fst (fst p)) \<and>
           population o' = population (fst (fst p))"
    by auto
  have yin: "year (fst (fst p)) \<in> fst ` set (us dl)"
    using o' by (simp add: us_fst)
  from merge_left_snd [OF inner] yin
  obtain v where v: "snd (fst p) = Some v" "(year (fst (fst p)), v) \<in> set (us dl)"
    by blast
  then show "snd (fst p) = Some (wrap64 (sum_list (year_group dl (year (fst (fst p))))))"
    using us_value by blast
  have kp: "?k (fst p) = year (fst (fst p))" by (simp add: case_prod_beta)
  have "year o' \<in> year ` {r \<in> set dl. state r = focus}" using o' by blast
  then have "year o' \<in> year ` {r \<in> set (with_rank dl). state r = focus}"
    by (simp only: with_rank_focus_years)
  then have "year (fst (fst p)) \<in> fst ` set (ny_rank focus (with_rank dl))"
    using o'(3) by (force simp: ny_rank_set)
  with merge_left_snd [OF pin] kp
  obtain w where w: "snd p = Some w" "(year (fst (fst p)), w) \<in> set (ny_rank focus (with_rank dl))"
    by auto
  then show "\<exists>q \<in> set (with_rank dl). state q = focus \<and> year q = year (fst (fst p)) \<and>
           snd p = Some (rank q)"
    by (auto simp: ny_rank_set)
qed

lemma joined_covers:
  assumes "q \<in> set dl" "state q = focus"
  shows "\<exists>p \<in> set (joined focus dl). year (fst (fst p)) = year q \<and>
           population (fst (fst p)) = population q"
proof -
  let ?inner = "merge_left (ny_base focus dl) year (us dl)"
  let ?k = "\<lambda>(r, u). year (r :: yp)"
  have "\<lparr>year = year q, population = population q\<rparr> \<in> set (ny_base focus dl)"
    using assms by (auto simp: ny_base_set)
  then have "\<lparr>year = year q, population = population q\<rparr> \<in> fst ` set ?inner"
    by (simp only: merge_left_fst)
  then obtain a where a: "a \<in> set ?inner" "fst a = \<lparr>year = year q, population = population q\<rparr>"
    by auto
  then have "a \<in> fst ` set (merge_left ?inner ?k (ny_rank focus (with_rank dl)))"
    by (simp only: merge_left_fst)
  then obtain p where "p \<in> set (joined focus dl)" "fst p = a"
    by (auto simp: joined_def)
  with a show ?thesis by force
qed

lemma focus_series_row:
  assumes "r \<in> set (focus_series focus dl)"
  obtains i where "i < length (joined focus dl)" "r = focus_series focus dl ! i"
  using assms by (auto simp: in_set_conv_nth length_focus_series)

text \<open>
  C10. Every row of the focus-state series has a national total, the 64-bit sum of the
  populations of its year, and a rank, that of a tidy row of the focus state in its year:
  neither join leaves a missing value. Every tidy row of the focus state has a row in the
  series.
\<close>

theorem focus_series_joins_defined:
  "(\<forall>r \<in> set (focus_series focus dl).
      us_population r = Some (wrap64 (sum_list (year_group dl (year r)))) \<and>
      (\<exists>q \<in> set (with_rank dl). state q = focus \<and> year q = year r \<and> rank_ny r = Some (rank q))) \<and>
   (\<forall>q \<in> set dl. state q = focus \<longrightarrow>
      (\<exists>r \<in> set (focus_series focus dl). year r = year q \<and> population r = population q))"
proof (intro conjI ballI impI)
  fix r assume "r \<in> set (focus_series focus dl)"
  then obtain i where i: "i < length (joined focus dl)" "r = focus_series focus dl ! i"
    by (rule focus_series_row)
  then have p: "joined focus dl ! i \<in> set (joined focus dl)" by simp
  show "us_population r = Some (wrap64 (sum_list (year_group dl (year r))))"
    using joined_row(2) [OF p] i by (simp add: focus_series_nth)
  show "\<exists>q \<in> set (with_rank dl). state q = focus \<and> year q = year r \<and> rank_ny r = Some (rank q)"
    using joined_row(3) [OF p] i by (simp add: focus_series_nth)
next
  fix q assume "q \<in> set dl" "state q = focus"
  then obtain p where p: "p \<in> set (joined focus dl)" "year (fst (fst p)) = year q"
    "population (fst (fst p)) = population q"
    using joined_covers by blast
  then obtain i where i: "i < length (joined focus dl)" "joined focus dl ! i = p"
    by (auto simp: in_set_conv_nth)
  then have "focus_series focus dl ! i \<in> set (focus_series focus dl)"
    by (simp add: length_focus_series)
  moreover have "year (focus_series focus dl ! i) = year q"
    and "population (focus_series focus dl ! i) = population q"
    using i p by (simp_all add: focus_series_nth)
  ultimately show "\<exists>r \<in> set (focus_series focus dl). year r = year q \<and> population r = population q"
    by blast
qed

theorem focus_series_joins_defined_witness:
  "hd (ny demo_long) \<in> set (ny demo_long) \<and>
   year (hd (ny demo_long)) = 2010 \<and>
   us_population (hd (ny demo_long)) = Some 30 \<and>
   rank_ny (hd (ny demo_long)) \<noteq> None"
proof -
  have h: "hd (ny demo_long) \<in> set (focus_series ''New York'' demo_long)"
    unfolding ny_def by code_simp
  have y: "year (hd (ny demo_long)) = 2010" by code_simp
  have s: "wrap64 (sum_list (year_group demo_long 2010)) = 30" by code_simp
  from focus_series_joins_defined [of "''New York''" demo_long]
  have "\<forall>r \<in> set (focus_series ''New York'' demo_long).
      us_population r = Some (wrap64 (sum_list (year_group demo_long (year r)))) \<and>
      (\<exists>q \<in> set (with_rank demo_long). state q = ''New York'' \<and> year q = year r \<and>
         rank_ny r = Some (rank q))"
    by (rule conjunct1)
  from bspec [OF this h] y s
  have "us_population (hd (ny demo_long)) = Some 30" and "rank_ny (hd (ny demo_long)) \<noteq> None"
    by auto
  with h y show ?thesis by (simp add: ny_def)
qed


subsection \<open>Year-over-year change\<close>

lemma ny_base_sorted: "sorted (map year (ny_base focus dl))"
  by (simp add: ny_base_def)

lemma joined_sorted: "sorted (map (\<lambda>p. year (fst (fst p))) (joined focus dl))"
proof -
  let ?inner = "merge_left (ny_base focus dl) year (us dl)"
  have a: "sorted (map (\<lambda>p. year (fst p)) ?inner)"
    using merge_left_sorted [OF ny_base_sorted] .
  have e: "(\<lambda>(r, u). year r) = (\<lambda>p :: yp \<times> int option. year (fst p))"
    by (simp add: fun_eq_iff)
  have "sorted (map (\<lambda>(r, u). year r) ?inner)"
    unfolding e by (rule a)
  from merge_left_sorted [OF this] show ?thesis
    by (simp add: joined_def case_prod_beta)
qed

lemma focus_series_years:
  "map year (focus_series focus dl) = map (\<lambda>p. year (fst (fst p))) (joined focus dl)"
  by (rule nth_equalityI) (simp_all add: length_focus_series focus_series_nth(1))

lemma focus_series_sorted: "sorted (map year (focus_series focus dl))"
  by (simp add: focus_series_years joined_sorted)

lemma focus_series_yoy:
  assumes "i < length (focus_series focus dl)"
  shows "yoy_change (focus_series focus dl ! i) =
           (if i = 0 then None
            else Some (f64_of_int (wrap64 (population (focus_series focus dl ! i)
                       - population (focus_series focus dl ! (i - 1))))))"
proof -
  let ?pops = "map (\<lambda>((r, u), k). population r) (joined focus dl)"
  have i: "i < length (joined focus dl)" using assms by (simp add: length_focus_series)
  then have "yoy_change (focus_series focus dl ! i) = diff ?pops ! i"
    by (simp add: focus_series_nth)
  also have "\<dots> = (if i = 0 then None
      else Some (f64_of_int (wrap64 (?pops ! i - ?pops ! (i - 1)))))"
    using i by (simp add: diff_nth)
  also have "?pops = map population (focus_series focus dl)"
    by (simp add: focus_series_pops)
  finally show ?thesis using assms by simp
qed

lemma focus_series_yoy_pct:
  assumes "i < length (focus_series focus dl)"
  shows "yoy_pct (focus_series focus dl ! i) =
           (if i = 0 then NaN
            else fmul (fsub (fdiv (of_cell (population (focus_series focus dl ! i)))
                                  (of_cell (population (focus_series focus dl ! (i - 1)))))
                            (Fin 1))
                      (Fin 100))"
proof -
  let ?pops = "map (\<lambda>((r, u), k). population r) (joined focus dl)"
  have i: "i < length (joined focus dl)" using assms by (simp add: length_focus_series)
  then have "yoy_pct (focus_series focus dl ! i) = fmul (pct_change ?pops ! i) (Fin 100)"
    by (simp add: focus_series_nth)
  also have "\<dots> = (if i = 0 then NaN
       else fmul (fsub (fdiv (of_cell (?pops ! i)) (of_cell (?pops ! (i - 1)))) (Fin 1)) (Fin 100))"
    using i by (simp add: pct_change_nth)
  also have "?pops = map population (focus_series focus dl)"
    by (simp add: focus_series_pops)
  finally show ?thesis using assms by simp
qed

text \<open>
  When the focus state has one tidy row per year, each join matches exactly one row, and
  the series has one row per year.
\<close>

lemma key_filter_le_one:
  "distinct (map k xs) \<Longrightarrow> length (filter (\<lambda>x. k x = v) xs) \<le> 1"
proof (induction xs)
  case Nil
  then show ?case by simp
next
  case (Cons x xs)
  show ?case
  proof (cases "k x = v")
    case True
    from Cons.prems have "k x \<notin> k ` set xs" by simp
    with True have "\<forall>y \<in> set xs. k y \<noteq> v" by blast
    then have "filter (\<lambda>x. k x = v) xs = []" by (simp add: filter_empty_conv)
    with True show ?thesis by simp
  next
    case False
    with Cons show ?thesis by simp
  qed
qed

lemma join_row_single:
  assumes d: "distinct (map fst ys)" and m: "k x \<in> fst ` set ys"
  shows "\<exists>v. join_row k ys x = [(x, Some v)]"
proof -
  have "length (filter (\<lambda>p. fst p = k x) ys) \<le> 1"
    using d by (rule key_filter_le_one)
  moreover have "filter (\<lambda>p. fst p = k x) ys \<noteq> []"
    using m by (force simp: filter_empty_conv)
  ultimately obtain p where p: "filter (\<lambda>p. fst p = k x) ys = [p]"
    by (cases "filter (\<lambda>p. fst p = k x) ys") auto
  have "filter (\<lambda>(y, v). y = k x) ys = filter (\<lambda>p. fst p = k x) ys"
    by (rule filter_cong) auto
  then have "filter (\<lambda>(y, v). y = k x) ys = [p]" by (simp only: p)
  then show ?thesis by (cases p) (simp add: join_row_def)
qed

lemma merge_left_single:
  assumes d: "distinct (map fst ys)" and m: "\<forall>x \<in> set xs. k x \<in> fst ` set ys"
  shows "map fst (merge_left xs k ys) = xs"
  using m
proof (induction xs)
  case Nil
  show ?case by (simp add: merge_left_Nil)
next
  case (Cons x xs)
  from Cons.prems have "k x \<in> fst ` set ys" by simp
  with d have "\<exists>v. join_row k ys x = [(x, Some v)]" by (rule join_row_single)
  then obtain v where "join_row k ys x = [(x, Some v)]" ..
  with Cons show ?case by (simp add: merge_left_Cons)
qed

lemma us_distinct: "distinct (map fst (us dl))"
  by (simp add: us_def o_def)

lemma ny_rank_years:
  "map fst (ny_rank focus (with_rank dl)) = map year (filter (\<lambda>r. state r = focus) dl)"
  by (simp add: ny_rank_def with_rank_def filter_map o_def)

lemma distinct_map_sort_key: "distinct (map f (sort_key g xs)) = distinct (map f xs)"
  by (simp add: distinct_map)

lemma ny_base_distinct:
  assumes "distinct (map year (filter (\<lambda>r. state r = focus) dl))"
  shows "distinct (map year (ny_base focus dl))"
proof -
  let ?zs = "map (\<lambda>r. \<lparr>year = year r, population = population r\<rparr>)
               (filter (\<lambda>r. state r = focus) dl)"
  have "map year ?zs = map year (filter (\<lambda>r. state r = focus) dl)" by (simp add: o_def)
  with assms have "distinct (map year ?zs)" by (simp only: )
  then have "distinct (map year (sort_key year ?zs))"
    by (simp only: distinct_map_sort_key)
  then show ?thesis by (simp only: ny_base_def)
qed

lemma one_row_per_year:
  assumes "distinct (map year (filter (\<lambda>r. state r = focus) dl))"
  shows "distinct (map year (focus_series focus dl))"
proof -
  let ?inner = "merge_left (ny_base focus dl) year (us dl)"
  let ?k = "\<lambda>(r, u). year (r :: yp)"
  have base: "\<forall>x \<in> set (ny_base focus dl). year x \<in> fst ` set (us dl)"
    by (auto simp: ny_base_set us_fst)
  have i1: "map fst ?inner = ny_base focus dl"
    using us_distinct base by (rule merge_left_single)
  have d2: "distinct (map fst (ny_rank focus (with_rank dl)))"
    using assms by (simp only: ny_rank_years)
  have "\<forall>a \<in> set ?inner. ?k a \<in> fst ` set (ny_rank focus (with_rank dl))"
  proof
    fix a assume "a \<in> set ?inner"
    then have "fst a \<in> fst ` set ?inner" by (rule imageI)
    then have "fst a \<in> set (ny_base focus dl)" by (simp only: merge_left_fst)
    then have "year (fst a) \<in> year ` {r \<in> set dl. state r = focus}"
      by (auto simp: ny_base_set)
    then have "year (fst a) \<in> set (map fst (ny_rank focus (with_rank dl)))"
      by (simp only: ny_rank_years) auto
    then show "?k a \<in> fst ` set (ny_rank focus (with_rank dl))"
      by (simp add: case_prod_beta)
  qed
  with d2 have i2: "map fst (merge_left ?inner ?k (ny_rank focus (with_rank dl))) = ?inner"
    by (rule merge_left_single)
  have "map (\<lambda>p. year (fst (fst p))) (joined focus dl) =
        map year (map fst (map fst (joined focus dl)))" by (simp add: o_def)
  also have "\<dots> = map year (ny_base focus dl)"
    by (simp only: joined_def i2 i1)
  finally have "map year (focus_series focus dl) = map year (ny_base focus dl)"
    by (simp only: focus_series_years)
  with ny_base_distinct [OF assms] show ?thesis by simp
qed

text \<open>In a strictly increasing list of integers, a value and its predecessor are adjacent.\<close>

lemma consecutive_adjacent:
  assumes s: "sorted_wrt (<) (ys :: int list)"
    and i: "i < length ys" and j: "j < length ys" and c: "ys ! i = ys ! j + 1"
  shows "i = Suc j"
proof -
  have ji: "j < i"
  proof (rule ccontr)
    assume "\<not> j < i"
    then have "i = j \<or> i < j" by auto
    then show False
    proof
      assume "i = j" with c show False by simp
    next
      assume "i < j"
      with s j have "ys ! i < ys ! j" by (simp add: sorted_wrt_nth_less)
      with c show False by simp
    qed
  qed
  show ?thesis
  proof (rule ccontr)
    assume "i \<noteq> Suc j"
    with ji have lt: "Suc j < i" by simp
    have "ys ! j < ys ! Suc j" using s lt i by (simp add: sorted_wrt_nth_less)
    moreover have "ys ! Suc j < ys ! i" using s lt i by (simp add: sorted_wrt_nth_less)
    ultimately show False using c by simp
  qed
qed

lemma strict_first:
  assumes s: "sorted_wrt (<) (ys :: int list)" and i: "i < length ys"
    and m: "\<forall>y \<in> set ys. ys ! i \<le> y"
  shows "i = 0"
proof (rule ccontr)
  assume "i \<noteq> 0"
  then have "0 < i" by simp
  with s i have "ys ! 0 < ys ! i" by (simp add: sorted_wrt_nth_less)
  moreover have "ys ! 0 \<in> set ys" using i by (intro nth_mem) auto
  ultimately show False using m by force
qed

text \<open>
  C3, as amended. The focus-state series is in ascending year order. Its first row has no
  year-over-year change and no percentage change. Every later row's change is the float
  that holds its population minus the population of the row before it, the difference
  taken in 64-bit integers. When the focus state has one observation per year, the row of
  the first year is that first row, and the change of the row of a year \<open>Y\<close> whose
  predecessor year \<open>Y - 1\<close> is also in the series is the population of \<open>Y\<close> minus the
  population of \<open>Y - 1\<close>, exactly so when the difference is at most \<open>2^53\<close> in
  magnitude.
\<close>

theorem focus_series_yoy_change:
  "sorted (map year (focus_series focus dl)) \<and>
   (focus_series focus dl \<noteq> [] \<longrightarrow>
      yoy_change (focus_series focus dl ! 0) = None \<and>
      yoy_pct (focus_series focus dl ! 0) = NaN) \<and>
   (\<forall>i. 0 < i \<and> i < length (focus_series focus dl) \<longrightarrow>
      yoy_change (focus_series focus dl ! i) =
        Some (f64_of_int (wrap64 (population (focus_series focus dl ! i)
                                  - population (focus_series focus dl ! (i - 1)))))) \<and>
   (distinct (map year (filter (\<lambda>r. state r = focus) dl)) \<longrightarrow>
      (\<forall>r \<in> set (focus_series focus dl).
         (\<forall>q \<in> set (focus_series focus dl). year r \<le> year q) \<longrightarrow>
         yoy_change r = None \<and> yoy_pct r = NaN) \<and>
      (\<forall>r \<in> set (focus_series focus dl). \<forall>p \<in> set (focus_series focus dl).
         year r = year p + 1 \<longrightarrow>
         yoy_change r = Some (f64_of_int (wrap64 (population r - population p))) \<and>
         (\<bar>population r - population p\<bar> \<le> 2 ^ 53 \<longrightarrow>
            yoy_change r = Some (population r - population p))))"
proof (intro conjI impI allI ballI)
  show "sorted (map year (focus_series focus dl))" by (rule focus_series_sorted)
next
  assume "focus_series focus dl \<noteq> []"
  then have z: "0 < length (focus_series focus dl)" by simp
  show "yoy_change (focus_series focus dl ! 0) = None"
    using focus_series_yoy [OF z] by simp
  show "yoy_pct (focus_series focus dl ! 0) = NaN"
    using focus_series_yoy_pct [OF z] by simp
next
  fix i assume "0 < i \<and> i < length (focus_series focus dl)"
  then show "yoy_change (focus_series focus dl ! i) =
        Some (f64_of_int (wrap64 (population (focus_series focus dl ! i)
                                  - population (focus_series focus dl ! (i - 1)))))"
    using focus_series_yoy [of i focus dl] by simp
next
  fix r
  let ?fs = "focus_series focus dl"
  assume "distinct (map year (filter (\<lambda>r. state r = focus) dl))"
    and r: "r \<in> set ?fs" and m: "\<forall>q \<in> set ?fs. year r \<le> year q"
  then have d: "distinct (map year ?fs)" by (simp only: one_row_per_year)
  from r obtain i where i: "i < length ?fs" "?fs ! i = r" by (auto simp: in_set_conv_nth)
  have st: "sorted_wrt (<) (map year ?fs)"
    using d focus_series_sorted [of focus dl] by (simp add: strict_sorted_iff)
  have "i = 0"
    using strict_first [OF st, of i] i m by simp
  with i focus_series_yoy [OF i(1)] focus_series_yoy_pct [OF i(1)]
  show "yoy_change r = None" and "yoy_pct r = NaN" by simp_all
next
  fix r p
  let ?fs = "focus_series focus dl"
  assume "distinct (map year (filter (\<lambda>r. state r = focus) dl))"
    and r: "r \<in> set ?fs" and p: "p \<in> set ?fs" and c: "year r = year p + 1"
  then have d: "distinct (map year ?fs)" by (simp only: one_row_per_year)
  from r obtain i where i: "i < length ?fs" "?fs ! i = r" by (auto simp: in_set_conv_nth)
  from p obtain j where j: "j < length ?fs" "?fs ! j = p" by (auto simp: in_set_conv_nth)
  have st: "sorted_wrt (<) (map year ?fs)"
    using d focus_series_sorted [of focus dl] by (simp add: strict_sorted_iff)
  have "i = Suc j"
    using consecutive_adjacent [OF st, of i j] i j c by simp
  with focus_series_yoy [OF i(1)] i j
  show e: "yoy_change r = Some (f64_of_int (wrap64 (population r - population p)))" by simp
  assume b: "\<bar>population r - population p\<bar> \<le> 2 ^ 53"
  then have "wrap64 (population r - population p) = population r - population p"
    by (intro wrap64_id) simp_all
  with b e show "yoy_change r = Some (population r - population p)"
    by (simp add: f64_of_int_id)
qed

theorem focus_series_yoy_change_witness:
  "distinct (map year (filter (\<lambda>r. state r = ''New York'') demo_long)) \<and>
   (ny demo_long ! 2) \<in> set (ny demo_long) \<and> (ny demo_long ! 1) \<in> set (ny demo_long) \<and>
   (ny demo_long ! 0) \<in> set (ny demo_long) \<and>
   year (ny demo_long ! 2) = 2020 \<and> year (ny demo_long ! 1) = 2019 \<and>
   year (ny demo_long ! 0) = 2010 \<and> list_all (\<lambda>q. 2010 \<le> year q) (ny demo_long) \<and>
   population (ny demo_long ! 2) = 10 \<and> population (ny demo_long ! 1) = 8 \<and>
   yoy_change (ny demo_long ! 2) = Some 2 \<and>
   yoy_change (ny demo_long ! 0) = None \<and> yoy_pct (ny demo_long ! 0) = NaN"
proof -
  let ?fs = "focus_series ''New York'' demo_long"
  have d: "distinct (map year (filter (\<lambda>r. state r = ''New York'') demo_long))" by code_simp
  have r: "?fs ! 2 \<in> set ?fs" by code_simp
  have p: "?fs ! 1 \<in> set ?fs" by code_simp
  have f: "?fs ! 0 \<in> set ?fs" by code_simp
  have yr: "year (?fs ! 2) = 2020" by code_simp
  have yp: "year (?fs ! 1) = 2019"  by code_simp
  have yf: "year (?fs ! 0) = 2010"  by code_simp
  have mn: "list_all (\<lambda>q. 2010 \<le> year q) ?fs" by code_simp
  have pr: "population (?fs ! 2) = 10" by code_simp
  have pp: "population (?fs ! 1) = 8" by code_simp
  note t = focus_series_yoy_change [of "''New York''" demo_long]
  from t d have a: "\<forall>r \<in> set ?fs. (\<forall>q \<in> set ?fs. year r \<le> year q) \<longrightarrow>
         yoy_change r = None \<and> yoy_pct r = NaN"
    by blast
  have "\<forall>q \<in> set ?fs. year (?fs ! 0) \<le> year q"
    using mn yf by (simp add: list_all_iff)
  with bspec [OF a f] have first: "yoy_change (?fs ! 0) = None \<and> yoy_pct (?fs ! 0) = NaN"
    by blast
  from t d have "\<forall>r \<in> set ?fs. \<forall>p \<in> set ?fs.
         year r = year p + 1 \<longrightarrow>
         yoy_change r = Some (f64_of_int (wrap64 (population r - population p))) \<and>
         (\<bar>population r - population p\<bar> \<le> 2 ^ 53 \<longrightarrow>
            yoy_change r = Some (population r - population p))"
    by blast
  from bspec [OF bspec [OF this r] p]
  have "year (?fs ! 2) = year (?fs ! 1) + 1 \<longrightarrow>
      \<bar>population (?fs ! 2) - population (?fs ! 1)\<bar> \<le> 2 ^ 53 \<longrightarrow>
      yoy_change (?fs ! 2) = Some (population (?fs ! 2) - population (?fs ! 1))"
    by blast
  then have "yoy_change (?fs ! 2) = Some 2" unfolding yr yp pr pp by simp
  with d r p f yr yp yf mn pr pp first show ?thesis by (simp add: ny_def)
qed

text \<open>
  The claim as stated fails in two ways. A change of \<open>2^53 + 1\<close> is stored as \<open>2^53\<close>:
  the float cannot hold it. And when two state rows carry the focus state's name, rows
  of the first year after the first row have a change.
\<close>

theorem focus_series_yoy_change_inexact:
  "year (ny big_long ! 0) = 2010 \<and> population (ny big_long ! 0) = 0 \<and>
   year (ny big_long ! 1) = 2011 \<and> population (ny big_long ! 1) = 9007199254740993 \<and>
   yoy_change (ny big_long ! 1) = Some 9007199254740992 \<and>
   df_long twin_table = Inr twin_long \<and>
   year (ny twin_long ! 0) = 2010 \<and> year (ny twin_long ! 1) = 2010 \<and>
   yoy_change (ny twin_long ! 1) = Some 0"
  unfolding ny_def by code_simp

subsection \<open>Percentage change after a zero population\<close>

text \<open>
  C4, as amended. No row of the series raises. For a row after the first whose preceding
  row has population zero, the percentage change is NaN when the row's own population is
  zero too, and otherwise an infinity with the sign of the row's population. When the
  preceding population is not zero, it is the finite number \<open>100 * (x / p - 1)\<close>.
\<close>

theorem yoy_pct_zero_prior:
  assumes "0 < i" and "i < length (focus_series focus dl)"
  shows "(population (focus_series focus dl ! (i - 1)) = 0 \<longrightarrow>
           yoy_pct (focus_series focus dl ! i) =
             (if population (focus_series focus dl ! i) = 0 then NaN
              else if 0 < population (focus_series focus dl ! i) then PInf else NInf)) \<and>
         (population (focus_series focus dl ! (i - 1)) \<noteq> 0 \<longrightarrow>
           yoy_pct (focus_series focus dl ! i) =
             Fin (100 * (real_of_int (population (focus_series focus dl ! i))
                          / real_of_int (population (focus_series focus dl ! (i - 1))) - 1)))"
  using assms focus_series_yoy_pct [of i focus dl] by (simp add: of_cell_def)

theorem yoy_pct_zero_prior_witness:
  "(0::nat) < 1 \<and> 1 < length (ny zero_base_long) \<and>
   population (ny zero_base_long ! (1 - 1)) = 0 \<and>
   population (ny zero_base_long ! 1) = 5 \<and>
   yoy_pct (ny zero_base_long ! 1) = PInf"
proof -
  let ?fs = "focus_series ''New York'' zero_base_long"
  have l: "1 < length ?fs" by code_simp
  have p0: "population (?fs ! (1 - 1)) = 0" by code_simp
  have p1: "population (?fs ! 1) = 5" by code_simp
  from yoy_pct_zero_prior [OF zero_less_one l] p0 p1
  have "yoy_pct (?fs ! 1) = PInf" by simp
  with l p0 p1 show ?thesis by (simp add: ny_def)
qed

text \<open>
  The claim as stated fails: with population 0 in 2010 and 5 in 2011 the percentage
  change of 2011 is \<open>+inf\<close>, a value, and not the missing marker.
\<close>

theorem yoy_pct_zero_prior_infinite:
  "year (ny zero_base_long ! 0) = 2010 \<and> population (ny zero_base_long ! 0) = 0 \<and>
   year (ny zero_base_long ! 1) = 2011 \<and> population (ny zero_base_long ! 1) = 5 \<and>
   yoy_pct (ny zero_base_long ! 1) = PInf \<and> yoy_pct (ny zero_base_long ! 1) \<noteq> NaN"
  unfolding ny_def by code_simp


section \<open>Summary scalars\<close>

lemma first_index_found:
  "v \<in> set xs \<Longrightarrow> first_index xs v < length xs \<and> xs ! first_index xs v = v"
  by (induction xs) auto

lemma first_index_least: "j < first_index xs v \<Longrightarrow> xs ! j \<noteq> v"
proof (induction xs arbitrary: j)
  case Nil
  then show ?case by simp
next
  case (Cons x xs)
  then show ?case by (cases j) (auto split: if_splits)
qed

lemma idxmax_Inr:
  assumes "idxmax xs = Inr i"
  shows "i < length xs" and "xs ! i = Max (set xs)" and "\<forall>j < i. xs ! j < Max (set xs)"
proof -
  from assms have ne: "xs \<noteq> []" and i: "i = first_index xs (Max (set xs))"
    by (auto simp: idxmax_def split: if_splits)
  from ne have m: "Max (set xs) \<in> set xs" by simp
  from first_index_found [OF m] i show "i < length xs" and e: "xs ! i = Max (set xs)" by simp_all
  show "\<forall>j < i. xs ! j < Max (set xs)"
  proof (intro allI impI)
    fix j assume j: "j < i"
    with i have "xs ! j \<noteq> Max (set xs)" by (simp add: first_index_least)
    moreover have "xs ! j \<le> Max (set xs)" using j \<open>i < length xs\<close> by simp
    ultimately show "xs ! j < Max (set xs)" by simp
  qed
qed

lemma idxmax_total: "xs \<noteq> [] \<Longrightarrow> \<exists>i. idxmax xs = Inr i"
  by (simp add: idxmax_def)

lemma summarise_Inr:
  assumes "summarise s = Inr m"
  obtains base_pop last_pop i where
    "iloc0 (map population (filter (\<lambda>r. year r = 2010) s)) = Inr base_pop"
    "iloc0 (map population (filter (\<lambda>r. year r = 2019) s)) = Inr last_pop"
    "idxmax (map population s) = Inr i" "i < length s"
    "m = \<lparr>peak_pop = f64_of_int (population (s ! i)), peak_year = f64_of_int (year (s ! i)),
          cagr = cagr_of base_pop last_pop,
          abs_change_2010_2019 = wrap64 (last_pop - base_pop)\<rparr>"
  using assms
  by (auto simp: summarise_def loc_def split: sum.splits if_splits)

lemma summarise_total:
  assumes b: "iloc0 (map population (filter (\<lambda>r. year r = 2010) s)) = Inr base_pop"
    and l: "iloc0 (map population (filter (\<lambda>r. year r = 2019) s)) = Inr last_pop"
  shows "\<exists>m. summarise s = Inr m \<and> cagr m = cagr_of base_pop last_pop \<and>
           abs_change_2010_2019 m = wrap64 (last_pop - base_pop)"
proof -
  from b have "s \<noteq> []" by (auto simp: iloc0_def)
  then obtain i where i: "idxmax (map population s) = Inr i"
    using idxmax_total [of "map population s"] by auto
  then have "i < length s" using idxmax_Inr(1) [OF i] by simp
  with b l i show ?thesis by (simp add: summarise_def loc_def)
qed

text \<open>
  C7, as amended. The peak of the summary is read from the first row of the whole series
  that holds the largest population of the series: no row of any year has a larger
  population, and every earlier row has a smaller one. The reported population and year
  are the integers that the floats made from that row hold: they are the row's own
  population and year whenever these are at most \<open>2^53\<close> in magnitude.
\<close>

theorem summary_peak_is_series_max:
  assumes "summarise s = Inr m"
  shows "\<exists>i < length s.
           (\<forall>q \<in> set s. population q \<le> population (s ! i)) \<and>
           (\<forall>j < i. population (s ! j) < population (s ! i)) \<and>
           peak_pop m = f64_of_int (population (s ! i)) \<and>
           peak_year m = f64_of_int (year (s ! i)) \<and>
           (\<bar>population (s ! i)\<bar> \<le> 2 ^ 53 \<longrightarrow> peak_pop m = population (s ! i)) \<and>
           (\<bar>year (s ! i)\<bar> \<le> 2 ^ 53 \<longrightarrow> peak_year m = year (s ! i))"
proof -
  from assms obtain base_pop last_pop i where
    i: "idxmax (map population s) = Inr i" "i < length s"
    and m: "m = \<lparr>peak_pop = f64_of_int (population (s ! i)),
          peak_year = f64_of_int (year (s ! i)),
          cagr = cagr_of base_pop last_pop,
          abs_change_2010_2019 = wrap64 (last_pop - base_pop)\<rparr>"
    by (rule summarise_Inr)
  have mx: "population (s ! i) = Max (set (map population s))"
    using idxmax_Inr(2) [OF i(1)] i(2) by simp
  have a: "\<forall>q \<in> set s. population q \<le> population (s ! i)"
    using mx by simp
  have b: "\<forall>j < i. population (s ! j) < population (s ! i)"
  proof (intro allI impI)
    fix j assume "j < i"
    with idxmax_Inr(3) [OF i(1)] i(2) have "map population s ! j < Max (set (map population s))"
      by blast
    with \<open>j < i\<close> i(2) mx show "population (s ! j) < population (s ! i)" by simp
  qed
  have c: "peak_pop m = f64_of_int (population (s ! i))"
    and d: "peak_year m = f64_of_int (year (s ! i))"
    using m by simp_all
  have e: "\<bar>population (s ! i)\<bar> \<le> 2 ^ 53 \<longrightarrow> peak_pop m = population (s ! i)"
    using c by (simp add: f64_of_int_id)
  have f: "\<bar>year (s ! i)\<bar> \<le> 2 ^ 53 \<longrightarrow> peak_year m = year (s ! i)"
    using d by (simp add: f64_of_int_id)
  from i(2) a b c d e f show ?thesis by blast
qed

lemma demo_base: "map population (filter (\<lambda>r. year r = 2010) (ny demo_long)) = [7]"
  by code_simp

lemma demo_last: "map population (filter (\<lambda>r. year r = 2019) (ny demo_long)) = [8]"
  by code_simp

lemma demo_idxmax: "idxmax (map population (ny demo_long)) = Inr 2"
  by code_simp

lemma demo_peak_row:
  "length (ny demo_long) = 3 \<and> population (ny demo_long ! 2) = 10 \<and>
   year (ny demo_long ! 2) = 2020"
  by code_simp

lemma demo_numbers: "f64_of_int 10 = 10 \<and> f64_of_int 2020 = 2020 \<and> wrap64 1 = 1"
  by code_simp

lemma demo_summary:
  "summarise (ny demo_long) =
     Inr \<lparr>peak_pop = 10, peak_year = 2020, cagr = cagr_of 7 8, abs_change_2010_2019 = 1\<rparr>"
  using demo_peak_row
  by (simp add: summarise_def iloc0_def loc_def demo_base demo_last demo_idxmax demo_numbers)

text \<open>
  On the small table the peak of New York is in 2020, outside the window 2010 to 2019.
\<close>

theorem summary_peak_is_series_max_witness:
  "summarise (ny demo_long) =
     Inr \<lparr>peak_pop = 10, peak_year = 2020, cagr = cagr_of 7 8, abs_change_2010_2019 = 1\<rparr> \<and>
   (\<exists>i < length (ny demo_long).
      list_all (\<lambda>q. population q \<le> population (ny demo_long ! i)) (ny demo_long) \<and>
      f64_of_int (population (ny demo_long ! i)) = 10 \<and>
      f64_of_int (year (ny demo_long ! i)) = 2020)"
  using summary_peak_is_series_max [OF demo_summary] demo_summary
  by (auto simp: list_all_iff)

lemma big_base: "map population (filter (\<lambda>r. year r = 2010) (ny big_long)) = [0]"
  by code_simp

lemma big_last:
  "map population (filter (\<lambda>r. year r = 2019) (ny big_long)) = [9007199254740992]"
  by code_simp

lemma big_idxmax: "idxmax (map population (ny big_long)) = Inr 1"
  by code_simp

lemma big_peak_row:
  "length (ny big_long) = 3 \<and> population (ny big_long ! 1) = 9007199254740993 \<and>
   year (ny big_long ! 1) = 2011"
  by code_simp

lemma big_numbers:
  "f64_of_int 9007199254740993 = 9007199254740992 \<and> f64_of_int 2011 = 2011 \<and>
   wrap64 9007199254740992 = 9007199254740992"
  by code_simp

text \<open>
  The claim as stated fails above \<open>2^53\<close>: the largest population of the series is
  \<open>2^53 + 1\<close>, in 2011, and the reported peak is \<open>2^53\<close>, the population of no row.
\<close>

theorem summary_peak_rounded:
  "map population (ny big_long) = [0, 9007199254740993, 9007199254740992] \<and>
   summarise (ny big_long) =
     Inr \<lparr>peak_pop = 9007199254740992, peak_year = 2011, cagr = PInf,
          abs_change_2010_2019 = 9007199254740992\<rparr>"
proof -
  have p: "map population (ny big_long) = [0, 9007199254740993, 9007199254740992]"
    by code_simp
  have c: "cagr_of 0 9007199254740992 = PInf"
    by (simp add: cagr_of_def of_cell_def)
  have "summarise (ny big_long) =
     Inr \<lparr>peak_pop = 9007199254740992, peak_year = 2011, cagr = PInf,
          abs_change_2010_2019 = 9007199254740992\<rparr>"
    using big_peak_row
    by (simp add: summarise_def iloc0_def loc_def big_base big_last big_idxmax big_numbers c)
  with p show ?thesis by simp
qed

subsection \<open>Compound annual growth rate\<close>

lemma ninth_root_power:
  assumes "0 \<le> (x :: real)"
  shows "(x powr (1 / 9)) ^ 9 = x"
proof (cases "x = 0")
  case True
  then show ?thesis by simp
next
  case False
  with assms have p: "0 < x powr (1 / 9)" by simp
  have "(x powr (1 / 9)) ^ 9 = (x powr (1 / 9)) powr (real 9)"
    using p by (simp only: powr_realpow)
  also have "\<dots> = x powr ((1 / 9) * real 9)" by (simp only: powr_powr)
  also have "\<dots> = x" using assms False by simp
  finally show ?thesis .
qed

lemma rate_back: "1 + (100 * (g - 1)) / 100 = (g :: real)"
  by (simp add: field_simps)

lemma cagr_of_positive:
  assumes "0 < P0" and "0 \<le> P1"
  shows "cagr_of P0 P1 = Fin (100 * ((real_of_int P1 / real_of_int P0) powr (1 / 9) - 1))"
proof -
  have "0 \<le> real_of_int P1 / real_of_int P0" using assms by simp
  then have "\<not> real_of_int P1 / real_of_int P0 < 0" by (simp only: not_less)
  with assms show ?thesis
    by (simp add: cagr_of_def of_cell_def years_span_def mult.commute)
qed

text \<open>
  C5. With a positive population \<open>P0\<close> in 2010 and a population \<open>P1 \<ge> 0\<close> in 2019, the
  summary's growth rate is \<open>100 * ((P1 / P0) ** (1 / N) - 1)\<close> for the span \<open>N = 9\<close>
  between the two years, and compounding \<open>P0\<close> by that rate over nine years gives \<open>P1\<close>
  (in exact arithmetic).
\<close>

theorem cagr_formula:
  assumes s: "summarise s = Inr m"
    and b: "iloc0 (map population (filter (\<lambda>r. year r = 2010) s)) = Inr P0"
    and l: "iloc0 (map population (filter (\<lambda>r. year r = 2019) s)) = Inr P1"
    and p0: "0 < P0" and p1: "0 \<le> P1"
  shows "years_span = 2019 - 2010 \<and>
         cagr m = Fin (100 * ((real_of_int P1 / real_of_int P0) powr (1 / years_span) - 1)) \<and>
         (\<exists>c. cagr m = Fin c \<and> real_of_int P0 * (1 + c / 100) ^ 9 = real_of_int P1)"
proof -
  let ?g = "(real_of_int P1 / real_of_int P0) powr (1 / 9)"
  from summarise_total [OF b l] s have c: "cagr m = cagr_of P0 P1" by auto
  then have f: "cagr m = Fin (100 * (?g - 1))"
    using cagr_of_positive [OF p0 p1] by simp
  have "0 \<le> real_of_int P1 / real_of_int P0" using p0 p1 by simp
  then have "?g ^ 9 = real_of_int P1 / real_of_int P0" by (rule ninth_root_power)
  moreover have "1 + (100 * (?g - 1)) / 100 = ?g" by (rule rate_back)
  ultimately have "(1 + (100 * (?g - 1)) / 100) ^ 9 = real_of_int P1 / real_of_int P0"
    by (simp only: )
  then have "real_of_int P0 * (1 + (100 * (?g - 1)) / 100) ^ 9 = real_of_int P1"
    using p0 by (simp only: ) simp
  with f have "\<exists>c. cagr m = Fin c \<and> real_of_int P0 * (1 + c / 100) ^ 9 = real_of_int P1"
    by blast
  with f show ?thesis by (simp only: years_span_def) simp
qed

theorem cagr_formula_witness:
  "summarise (ny demo_long) =
     Inr \<lparr>peak_pop = 10, peak_year = 2020, cagr = cagr_of 7 8, abs_change_2010_2019 = 1\<rparr> \<and>
   iloc0 (map population (filter (\<lambda>r. year r = 2010) (ny demo_long))) = Inr 7 \<and>
   iloc0 (map population (filter (\<lambda>r. year r = 2019) (ny demo_long))) = Inr 8 \<and>
   cagr_of 7 8 = Fin (100 * ((8 / 7) powr (1 / 9) - 1)) \<and>
   (\<exists>c. cagr_of 7 8 = Fin c \<and> 7 * (1 + c / 100) ^ 9 = (8 :: real))"
proof -
  have b: "iloc0 (map population (filter (\<lambda>r. year r = 2010) (ny demo_long))) = Inr 7"
    by (simp add: demo_base iloc0_def)
  have l: "iloc0 (map population (filter (\<lambda>r. year r = 2019) (ny demo_long))) = Inr 8"
    by (simp add: demo_last iloc0_def)
  have "(0::int) < 7" and "(0::int) \<le> 8" by simp_all
  note t = cagr_formula [OF demo_summary b l this]
  have c: "cagr \<lparr>peak_pop = 10, peak_year = 2020, cagr = cagr_of 7 8,
             abs_change_2010_2019 = 1\<rparr> = cagr_of 7 8" by simp
  from t have f: "cagr_of 7 8 = Fin (100 * ((real_of_int 8 / real_of_int 7) powr (1 / years_span) - 1))"
    unfolding c by (rule conjunct1 [OF conjunct2])
  from t have e: "\<exists>c. cagr_of 7 8 = Fin c \<and> real_of_int 7 * (1 + c / 100) ^ 9 = real_of_int 8"
    unfolding c by (rule conjunct2 [OF conjunct2])
  from f have f': "cagr_of 7 8 = Fin (100 * ((8 / 7) powr (1 / 9) - 1))"
    by (simp only: years_span_def of_int_numeral)
  from e have e': "\<exists>c. cagr_of 7 8 = Fin c \<and> 7 * (1 + c / 100) ^ 9 = (8 :: real)"
    by (simp only: of_int_numeral)
  from demo_summary b l f' e' show ?thesis by blast
qed

text \<open>
  C6, as amended. When the series has a row for 2010 and one for 2019, the summary is
  computed without an error whatever the starting population is. With a starting
  population of zero the rate is NaN when the end population is zero too and \<open>+inf\<close>
  otherwise; with a negative starting population it is NaN when the end population is
  positive and a finite number otherwise.
\<close>

theorem cagr_nonpositive_base:
  assumes b: "iloc0 (map population (filter (\<lambda>r. year r = 2010) s)) = Inr P0"
    and l: "iloc0 (map population (filter (\<lambda>r. year r = 2019) s)) = Inr P1"
    and p0: "P0 \<le> 0"
  shows "\<exists>m. summarise s = Inr m \<and>
           cagr m =
             (if P0 = 0 then (if P1 = 0 then NaN else PInf)
              else if 0 < P1 then NaN
              else Fin (100 * ((real_of_int P1 / real_of_int P0) powr (1 / 9) - 1)))"
proof -
  from summarise_total [OF b l] obtain m where
    m: "summarise s = Inr m" "cagr m = cagr_of P0 P1" by blast
  have "cagr_of P0 P1 =
             (if P0 = 0 then (if P1 = 0 then NaN else PInf)
              else if 0 < P1 then NaN
              else Fin (100 * ((real_of_int P1 / real_of_int P0) powr (1 / 9) - 1)))"
    using p0
    by (auto simp: cagr_of_def of_cell_def years_span_def mult.commute divide_less_0_iff
        not_less zero_le_divide_iff)
  with m show ?thesis by auto
qed

lemma zero_base: "map population (filter (\<lambda>r. year r = 2010) (ny zero_base_long)) = [0]"
  by code_simp

lemma zero_last: "map population (filter (\<lambda>r. year r = 2019) (ny zero_base_long)) = [5]"
  by code_simp

theorem cagr_nonpositive_base_witness:
  "iloc0 (map population (filter (\<lambda>r. year r = 2010) (ny zero_base_long))) = Inr 0 \<and>
   iloc0 (map population (filter (\<lambda>r. year r = 2019) (ny zero_base_long))) = Inr 5 \<and>
   (\<exists>m. summarise (ny zero_base_long) = Inr m \<and> cagr m = PInf)"
proof -
  have b: "iloc0 (map population (filter (\<lambda>r. year r = 2010) (ny zero_base_long))) = Inr 0"
    by (simp add: zero_base iloc0_def)
  have l: "iloc0 (map population (filter (\<lambda>r. year r = 2019) (ny zero_base_long))) = Inr 5"
    by (simp add: zero_last iloc0_def)
  from cagr_nonpositive_base [OF b l] have "\<exists>m. summarise (ny zero_base_long) = Inr m \<and> cagr m = PInf"
    by simp
  with b l show ?thesis by blast
qed

lemma zero_idxmax: "idxmax (map population (ny zero_base_long)) = Inr 1"
  by code_simp

lemma zero_peak_row:
  "length (ny zero_base_long) = 3 \<and> population (ny zero_base_long ! 1) = 5 \<and>
   year (ny zero_base_long ! 1) = 2011"
  by code_simp

lemma zero_numbers: "f64_of_int 5 = 5 \<and> f64_of_int 2011 = 2011 \<and> wrap64 5 = 5"
  by code_simp

text \<open>
  The claim as stated fails: with population 0 in 2010 and 5 in 2019 the rate is
  \<open>+inf\<close>, not NaN.
\<close>

theorem cagr_zero_base_infinite:
  "summarise (ny zero_base_long) =
     Inr \<lparr>peak_pop = 5, peak_year = 2011, cagr = PInf, abs_change_2010_2019 = 5\<rparr> \<and>
   PInf \<noteq> NaN"
  using zero_peak_row
  by (simp add: summarise_def iloc0_def loc_def zero_base zero_last zero_idxmax zero_numbers
      cagr_of_def of_cell_def)


section \<open>Share of the national total\<close>









section \<open>Reshaping the wide table\<close>

lemma melt_set:
  "set (melt rs cs) = {(NAME r, STATE r, c, cell r c) | r c. r \<in> set rs \<and> c \<in> set cs}"
  by (auto simp: melt_def)

lemma length_melt: "length (melt rs cs) = length rs * length cs"
  by (induction cs) (simp_all add: melt_def)

lemma df_long_Inr:
  assumes "df_long t = Inr dl"
  shows "dl = map (\<lambda>(n, s, c, v). \<lparr>year = label_year c, population = v, state = n, state_code = s\<rparr>)
                  (melt (df_states t) (pop_cols t))"
    and "\<forall>m \<in> set (melt (df_states t) (pop_cols t)). extract_d4 (fst (snd (snd m))) \<noteq> None"
  using assms
  by (auto simp: df_long_def Let_def list_ex_iff split: if_splits)

lemma df_long_intro:
  assumes "df_long t = Inr dl" and "r \<in> set (df_states t)" and "c \<in> set (pop_cols t)"
  shows "\<lparr>year = label_year c, population = cell r c, state = NAME r, state_code = STATE r\<rparr> \<in> set dl"
proof -
  have "(NAME r, STATE r, c, cell r c) \<in> set (melt (df_states t) (pop_cols t))"
    using assms(2,3) by (auto simp: melt_set)
  then have "(\<lambda>(n, s, c, v). \<lparr>year = label_year c, population = v, state = n, state_code = s\<rparr>)
      (NAME r, STATE r, c, cell r c) \<in> set dl"
    unfolding df_long_Inr(1) [OF assms(1)] set_map by (rule imageI)
  then show ?thesis by simp
qed

lemma df_long_elim:
  assumes "df_long t = Inr dl" and "q \<in> set dl"
  obtains r c where "r \<in> set (df_states t)" "c \<in> set (pop_cols t)"
    "q = \<lparr>year = label_year c, population = cell r c, state = NAME r, state_code = STATE r\<rparr>"
proof -
  from assms(2) obtain m where m: "m \<in> set (melt (df_states t) (pop_cols t))"
    "q = (\<lambda>(n, s, c, v). \<lparr>year = label_year c, population = v, state = n, state_code = s\<rparr>) m"
    unfolding df_long_Inr(1) [OF assms(1)] by auto
  from m(1) obtain r c where "r \<in> set (df_states t)" "c \<in> set (pop_cols t)"
    "m = (NAME r, STATE r, c, cell r c)"
    by (auto simp: melt_set)
  with m(2) that show ?thesis by simp
qed

lemma key_unique:
  assumes "distinct (map k xs)" and "a \<in> set xs" and "b \<in> set xs" and "k a = k b"
  shows "a = b"
  using assms by (meson distinct_map inj_onD)

lemma distinct_grid:
  assumes f: "distinct (map f rs)" and g: "distinct (map g cs)"
  shows "distinct (concat (map (\<lambda>c. map (\<lambda>r. (f r, g c)) rs) cs))"
  using g
proof (induction cs)
  case Nil
  show ?case by simp
next
  case (Cons c cs)
  have "inj_on (\<lambda>r. (f r, g c)) (set rs)"
    using f by (auto simp: distinct_map inj_on_def)
  then have a: "distinct (map (\<lambda>r. (f r, g c)) rs)"
    using f by (simp add: distinct_map)
  have b: "distinct (concat (map (\<lambda>c. map (\<lambda>r. (f r, g c)) rs) cs))"
    using Cons by simp
  have "g c \<notin> g ` set cs" using Cons.prems by simp
  then have d: "set (map (\<lambda>r. (f r, g c)) rs) \<inter>
      set (concat (map (\<lambda>c. map (\<lambda>r. (f r, g c)) rs) cs)) = {}"
    by auto
  from a b d show ?case by simp
qed

lemma df_long_keys:
  assumes "df_long t = Inr dl"
  shows "map (\<lambda>q. (state q, year q)) dl =
         concat (map (\<lambda>c. map (\<lambda>r. (NAME r, label_year c)) (df_states t)) (pop_cols t))"
  unfolding df_long_Inr(1) [OF assms]
  by (simp add: melt_def map_concat o_def)

lemma df_long_keys_distinct:
  assumes "df_long t = Inr dl" and "distinct (map NAME (df_states t))"
    and "distinct (map label_year (pop_cols t))"
  shows "distinct (map (\<lambda>q. (state q, year q)) dl)"
  unfolding df_long_keys [OF assms(1)] using assms(2,3) by (rule distinct_grid)

text \<open>
  C8, as amended. When the reshape succeeds, the long form has exactly one row per pair of
  a state row and a population column: the row of the pair carries the state's name, the
  year parsed from the column label and the original cell, and every long row comes from
  such a pair. When the state names are distinct and the population columns parse to
  distinct years, (state, year) is a key of the long form, and every long row found under
  the name and year of a pair carries the original cell of that pair.
\<close>

theorem melt_round_trip:
  assumes dl: "df_long t = Inr dl" and r: "r \<in> set (df_states t)" and c: "c \<in> set (pop_cols t)"
  shows "extract_d4 c \<noteq> None \<and>
         \<lparr>year = label_year c, population = cell r c, state = NAME r, state_code = STATE r\<rparr> \<in> set dl \<and>
         length dl = length (df_states t) * length (pop_cols t) \<and>
         (\<forall>q \<in> set dl. \<exists>r' \<in> set (df_states t). \<exists>c' \<in> set (pop_cols t).
            state q = NAME r' \<and> year q = label_year c' \<and> population q = cell r' c') \<and>
         (distinct (map NAME (df_states t)) \<and> distinct (map label_year (pop_cols t)) \<longrightarrow>
            distinct (map (\<lambda>q. (state q, year q)) dl) \<and>
            (\<forall>q \<in> set dl. state q = NAME r \<and> year q = label_year c \<longrightarrow>
               population q = cell r c))"
proof (intro conjI impI ballI)
  have "(NAME r, STATE r, c, cell r c) \<in> set (melt (df_states t) (pop_cols t))"
    using r c by (auto simp: melt_set)
  with df_long_Inr(2) [OF dl] show "extract_d4 c \<noteq> None" by fastforce
next
  show "\<lparr>year = label_year c, population = cell r c, state = NAME r, state_code = STATE r\<rparr> \<in> set dl"
    using dl r c by (rule df_long_intro)
next
  show "length dl = length (df_states t) * length (pop_cols t)"
    using df_long_Inr(1) [OF dl] by (simp add: length_melt)
next
  fix q assume "q \<in> set dl"
  with dl obtain r' c' where "r' \<in> set (df_states t)" "c' \<in> set (pop_cols t)"
    "q = \<lparr>year = label_year c', population = cell r' c', state = NAME r', state_code = STATE r'\<rparr>"
    by (rule df_long_elim)
  then show "\<exists>r' \<in> set (df_states t). \<exists>c' \<in> set (pop_cols t).
            state q = NAME r' \<and> year q = label_year c' \<and> population q = cell r' c'"
    by force
next
  assume h: "distinct (map NAME (df_states t)) \<and> distinct (map label_year (pop_cols t))"
  then show d: "distinct (map (\<lambda>q. (state q, year q)) dl)"
    using df_long_keys_distinct [OF dl] by blast
  fix q
  assume q: "q \<in> set dl" and k: "state q = NAME r \<and> year q = label_year c"
  have m: "\<lparr>year = label_year c, population = cell r c, state = NAME r, state_code = STATE r\<rparr> \<in> set dl"
    using dl r c by (rule df_long_intro)
  have "q = \<lparr>year = label_year c, population = cell r c, state = NAME r, state_code = STATE r\<rparr>"
    using key_unique [OF d q m] k by simp
  then show "population q = cell r c" by simp
qed

lemma demo_df_long: "df_long demo_table = Inr demo_long"
  by code_simp

lemma demo_names:
  "map NAME (df_states demo_table) = [''California'', ''Texas'', ''New York'', ''Florida'', ''Ohio'']"
  by (simp add: df_states_def demo_table_def demo_ny_def raw_row_def)

lemma demo_years: "map label_year (pop_cols demo_table) = [2010, 2019, 2020]"
  by code_simp

theorem melt_round_trip_witness:
  "df_long demo_table = Inr demo_long \<and>
   demo_ny \<in> set (df_states demo_table) \<and>
   ascii ''POPESTIMATE2019'' \<in> set (pop_cols demo_table) \<and>
   distinct (map NAME (df_states demo_table)) \<and>
   distinct (map label_year (pop_cols demo_table)) \<and>
   label_year (ascii ''POPESTIMATE2019'') = 2019 \<and>
   cell demo_ny (ascii ''POPESTIMATE2019'') = 8 \<and>
   obs ''New York'' 36 2019 8 \<in> set demo_long \<and>
   distinct (map (\<lambda>q. (state q, year q)) demo_long) \<and>
   map population (filter (\<lambda>q. state q = ''New York'' \<and> year q = 2019) demo_long) = [8]"
proof -
  have r: "demo_ny \<in> set (df_states demo_table)"
    by (simp add: df_states_def demo_table_def demo_ny_def raw_row_def)
  have c: "ascii ''POPESTIMATE2019'' \<in> set (pop_cols demo_table)" by code_simp
  have dn: "distinct (map NAME (df_states demo_table))" unfolding demo_names by simp
  have dy: "distinct (map label_year (pop_cols demo_table))" unfolding demo_years by simp
  have y: "label_year (ascii ''POPESTIMATE2019'') = 2019" by code_simp
  have v: "cell demo_ny (ascii ''POPESTIMATE2019'') = 8"
    by (simp add: demo_ny_def raw_row_def ascii_def)
  have n: "NAME demo_ny = ''New York'' \<and> STATE demo_ny = 36" by (simp add: demo_ny_def raw_row_def)
  have f: "map population (filter (\<lambda>q. state q = ''New York'' \<and> year q = 2019) demo_long) = [8]"
    by code_simp
  note t = melt_round_trip [OF demo_df_long r c]
  from t have "\<lparr>year = label_year (ascii ''POPESTIMATE2019''),
          population = cell demo_ny (ascii ''POPESTIMATE2019''),
          state = NAME demo_ny, state_code = STATE demo_ny\<rparr> \<in> set demo_long"
    by blast
  then have o: "obs ''New York'' 36 2019 8 \<in> set demo_long"
    by (simp only: y v n obs_def)
  from t dn dy have k: "distinct (map (\<lambda>q. (state q, year q)) demo_long)" by blast
  from demo_df_long r c dn dy y v o k f show ?thesis by blast
qed

text \<open>
  The claim as stated fails when two population columns parse to the same year: the
  labels \<open>POPESTIMATE2010\<close> and \<open>POPESTIMATE20100\<close> both give 2010, and the long form has
  two observations for (New York, 2010), with the cells 7 and 3.
\<close>

theorem melt_year_collision:
  "pop_cols collide_table = [ascii ''POPESTIMATE2010'', ascii ''POPESTIMATE20100''] \<and>
   df_long collide_table = Inr [obs ''New York'' 36 2010 7, obs ''New York'' 36 2010 3]"
  by code_simp

section \<open>The comparison frame and its end-of-series rows\<close>

lemma ranked_long_Inr:
  assumes "ranked_long t = Inr dlr"
  obtains dl where "df_long t = Inr dl" "dlr = with_rank dl"
  using assms by (auto simp: ranked_long_def split: sum.splits)

lemma comp_df_set:
  "set (comp_df dlr) =
     (\<lambda>q. (state q, year q, population q, rank q)) ` {q \<in> set dlr. state q \<in> set compare_states}"
  by (auto simp: comp_df_def)

text \<open>
  Every state row is melted against every population column, so every state of the long
  form has a row in every year of the long form.
\<close>

lemma df_long_rectangular:
  assumes dl: "df_long t = Inr dl" and a: "a \<in> set dl" and b: "b \<in> set dl"
  shows "\<exists>q \<in> set dl. state q = state a \<and> year q = year b"
proof -
  from dl a obtain r c where r: "r \<in> set (df_states t)" and c: "c \<in> set (pop_cols t)"
    and qa: "a = \<lparr>year = label_year c, population = cell r c, state = NAME r, state_code = STATE r\<rparr>"
    by (rule df_long_elim)
  from dl b obtain r' c' where r': "r' \<in> set (df_states t)" and c': "c' \<in> set (pop_cols t)"
    and qb: "b = \<lparr>year = label_year c', population = cell r' c', state = NAME r', state_code = STATE r'\<rparr>"
    by (rule df_long_elim)
  from df_long_intro [OF dl r c'] qa qb show ?thesis by force
qed

lemma comp_df_rectangular:
  assumes t: "ranked_long t = Inr dlr" and a: "a \<in> set (comp_df dlr)" and b: "b \<in> set (comp_df dlr)"
  shows "\<exists>q \<in> set (comp_df dlr). comp_state q = comp_state a \<and> comp_year q = comp_year b"
proof -
  from t obtain dl where dl: "df_long t = Inr dl" and w: "dlr = with_rank dl"
    by (rule ranked_long_Inr)
  from a obtain qa where qa: "qa \<in> set dlr" "state qa \<in> set compare_states"
    "a = (state qa, year qa, population qa, rank qa)"
    by (auto simp: comp_df_set)
  from b obtain qb where qb: "qb \<in> set dlr" "b = (state qb, year qb, population qb, rank qb)"
    by (auto simp: comp_df_set)
  from qa(1) w obtain oa where oa: "oa \<in> set dl" "state oa = state qa"
    by (auto simp: with_rank_def)
  from qb(1) w obtain ob where ob: "ob \<in> set dl" "year ob = year qb"
    by (auto simp: with_rank_def)
  from df_long_rectangular [OF dl oa(1) ob(1)]
  obtain q where q: "q \<in> set dl" "state q = state oa" "year q = year ob" by blast
  let ?q = "\<lparr>year = year q, population = population q, state = state q,
             state_code = state_code q,
             rank = rank_min_desc (year_group dl (year q)) (population q)\<rparr>"
  have "?q \<in> set dlr" using q(1) w by (auto simp: with_rank_def)
  moreover have "state ?q \<in> set compare_states" using q(2) oa(2) qa(2) by simp
  ultimately have "(state ?q, year ?q, population ?q, rank ?q) \<in> set (comp_df dlr)"
    unfolding comp_df_set by blast
  then show ?thesis
    using q oa ob qa(3) qb(2) by (force simp: comp_state_def comp_year_def)
qed

lemma state_max_is_global_max:
  assumes t: "ranked_long t = Inr dlr" and r: "r \<in> set (comp_df dlr)"
  shows "Max (comp_year ` {q \<in> set (comp_df dlr). comp_state q = comp_state r}) =
         Max (set (map comp_year (comp_df dlr)))"
proof (rule antisym)
  let ?S = "comp_year ` {q \<in> set (comp_df dlr). comp_state q = comp_state r}"
  let ?G = "set (map comp_year (comp_df dlr))"
  have ne: "?S \<noteq> {}" using r by blast
  have fin: "finite ?G" by simp
  have sub: "?S \<subseteq> ?G" by auto
  show "Max ?S \<le> Max ?G" using sub ne fin by (rule Max_mono)
  have "?G \<noteq> {}" using r by auto
  then have "Max ?G \<in> ?G" using fin by (rule_tac Max_in)
  then obtain b where b: "b \<in> set (comp_df dlr)" "comp_year b = Max ?G" by auto
  from comp_df_rectangular [OF t r b(1)] b(2)
  have "Max ?G \<in> ?S" by force
  moreover have "finite ?S" by simp
  ultimately show "Max ?G \<le> Max ?S" by (rule_tac Max_ge)
qed

lemma with_rank_keys:
  "map (\<lambda>q. (state q, year q)) (with_rank dl) = map (\<lambda>q. (state q, year q)) dl"
  by (simp add: with_rank_def o_def)

lemma comp_df_keys_distinct:
  assumes "distinct (map (\<lambda>q. (state q, year q)) dlr)"
  shows "distinct (map (\<lambda>q. (comp_state q, comp_year q)) (comp_df dlr))"
proof -
  let ?rows = "filter (\<lambda>r. state r \<in> set compare_states) dlr"
  have "map (\<lambda>q. (comp_state q, comp_year q))
          (map (\<lambda>r. (state r, year r, population r, rank r)) ?rows) =
        map (\<lambda>q. (state q, year q)) ?rows"
    by (simp add: comp_state_def comp_year_def o_def)
  moreover have "distinct (map (\<lambda>q. (state q, year q)) ?rows)"
    using assms by (rule distinct_map_filter)
  ultimately have "distinct (map (\<lambda>q. (comp_state q, comp_year q))
          (map (\<lambda>r. (state r, year r, population r, rank r)) ?rows))"
    by (simp only: )
  then show ?thesis
    unfolding comp_df_def by (simp only: distinct_map_sort_key)
qed

text \<open>
  C9, as amended. The end-of-series rows are the rows of the comparison frame at the
  largest year of the whole frame: one year is applied to all states. In a frame built
  from the table this year is also every state's own largest year, so the end-of-series
  rows of a state are exactly that state's rows at the largest year the state has. There
  is exactly one such row per state when the state names are distinct and the population
  columns parse to distinct years.
\<close>

theorem last_pts_per_state:
  assumes t: "ranked_long t = Inr dlr" and r: "r \<in> set (comp_df dlr)"
  shows "last_pts (comp_df dlr) =
           filter (\<lambda>q. comp_year q = Max (set (map comp_year (comp_df dlr)))) (comp_df dlr) \<and>
         filter (\<lambda>q. comp_state q = comp_state r) (last_pts (comp_df dlr)) =
           filter (\<lambda>q. comp_state q = comp_state r \<and>
                        comp_year q = Max (comp_year ` {q \<in> set (comp_df dlr).
                                                          comp_state q = comp_state r}))
                  (comp_df dlr) \<and>
         (distinct (map NAME (df_states t)) \<and> distinct (map label_year (pop_cols t)) \<longrightarrow>
            length (filter (\<lambda>q. comp_state q = comp_state r) (last_pts (comp_df dlr))) = 1)"
proof (intro conjI)
  let ?c = "comp_df dlr"
  let ?m = "Max (comp_year ` {q \<in> set ?c. comp_state q = comp_state r})"
  have ne: "?c \<noteq> []" using r by auto
  then show "last_pts ?c = filter (\<lambda>q. comp_year q = Max (set (map comp_year ?c))) ?c"
    by (simp add: last_pts_def last_year_def)
  from ne have ly: "last_year ?c = Some ?m"
    using state_max_is_global_max [OF t r] by (simp add: last_year_def)
  show eq: "filter (\<lambda>q. comp_state q = comp_state r) (last_pts ?c) =
           filter (\<lambda>q. comp_state q = comp_state r \<and> comp_year q = ?m) ?c"
    unfolding last_pts_def ly by (simp add: conj_commute)
  show "distinct (map NAME (df_states t)) \<and> distinct (map label_year (pop_cols t)) \<longrightarrow>
            length (filter (\<lambda>q. comp_state q = comp_state r) (last_pts ?c)) = 1"
  proof
    assume h: "distinct (map NAME (df_states t)) \<and> distinct (map label_year (pop_cols t))"
    from t obtain dl where dl: "df_long t = Inr dl" and w: "dlr = with_rank dl"
      by (rule ranked_long_Inr)
    have "distinct (map (\<lambda>q. (state q, year q)) dl)"
      using df_long_keys_distinct [OF dl] h by blast
    then have "distinct (map (\<lambda>q. (state q, year q)) dlr)"
      unfolding w by (simp only: with_rank_keys)
    then have d: "distinct (map (\<lambda>q. (comp_state q, comp_year q)) ?c)"
      by (rule comp_df_keys_distinct)
    have "length (filter (\<lambda>q. (comp_state q, comp_year q) = (comp_state r, ?m)) ?c) \<le> 1"
      using d by (rule key_filter_le_one)
    then have le: "length (filter (\<lambda>q. comp_state q = comp_state r \<and> comp_year q = ?m) ?c) \<le> 1"
      by simp
    have "finite (comp_year ` {q \<in> set ?c. comp_state q = comp_state r})" by simp
    moreover have "comp_year ` {q \<in> set ?c. comp_state q = comp_state r} \<noteq> {}" using r by blast
    ultimately have "?m \<in> comp_year ` {q \<in> set ?c. comp_state q = comp_state r}"
      by (rule Max_in)
    then obtain q where "q \<in> set ?c" "comp_state q = comp_state r" "comp_year q = ?m"
      by auto
    then have "q \<in> set (filter (\<lambda>q. comp_state q = comp_state r \<and> comp_year q = ?m) ?c)"
      by simp
    then have "filter (\<lambda>q. comp_state q = comp_state r \<and> comp_year q = ?m) ?c \<noteq> []"
      by (metis empty_iff list.set(1))
    then have "0 < length (filter (\<lambda>q. comp_state q = comp_state r \<and> comp_year q = ?m) ?c)"
      by simp
    with le have "length (filter (\<lambda>q. comp_state q = comp_state r \<and> comp_year q = ?m) ?c) = 1"
      by linarith
    then show "length (filter (\<lambda>q. comp_state q = comp_state r) (last_pts ?c)) = 1"
      by (simp only: eq)
  qed
qed

lemma demo_ranked_long: "ranked_long demo_table = Inr (with_rank demo_long)"
  by (simp add: ranked_long_def demo_df_long)

theorem last_pts_per_state_witness:
  "ranked_long demo_table = Inr (with_rank demo_long) \<and>
   (''Texas'', 2010, 7, 2) \<in> set (comp_df (with_rank demo_long)) \<and>
   distinct (map NAME (df_states demo_table)) \<and>
   distinct (map label_year (pop_cols demo_table)) \<and>
   filter (\<lambda>q. comp_state q = ''Texas'') (comp_df (with_rank demo_long)) =
     [(''Texas'', 2010, 7, 2), (''Texas'', 2019, 10, 2), (''Texas'', 2020, 11, 2)] \<and>
   filter (\<lambda>q. comp_state q = ''Texas'') (last_pts (comp_df (with_rank demo_long))) =
     [(''Texas'', 2020, 11, 2)] \<and>
   length (filter (\<lambda>q. comp_state q = ''Texas'') (last_pts (comp_df (with_rank demo_long)))) = 1"
proof -
  have r: "(''Texas'', 2010, 7, 2) \<in> set (comp_df (with_rank demo_long))" by code_simp
  have dn: "distinct (map NAME (df_states demo_table))" unfolding demo_names by simp
  have dy: "distinct (map label_year (pop_cols demo_table))" unfolding demo_years by simp
  have rows: "filter (\<lambda>q. comp_state q = ''Texas'') (comp_df (with_rank demo_long)) =
     [(''Texas'', 2010, 7, 2), (''Texas'', 2019, 10, 2), (''Texas'', 2020, 11, 2)]"
    by code_simp
  have l: "filter (\<lambda>q. comp_state q = ''Texas'') (last_pts (comp_df (with_rank demo_long))) =
     [(''Texas'', 2020, 11, 2)]" by code_simp
  have s: "comp_state (''Texas'', 2010 :: int, 7 :: int, 2 :: nat) = ''Texas''"
    by (simp add: comp_state_def)
  from last_pts_per_state [OF demo_ranked_long r] dn dy
  have "length (filter (\<lambda>q. comp_state q = ''Texas'') (last_pts (comp_df (with_rank demo_long)))) = 1"
    unfolding s by blast
  with demo_ranked_long r dn dy rows l show ?thesis by blast
qed

lemma twin_df_long: "df_long twin_table = Inr twin_long"
  by code_simp

text \<open>
  The claim as stated fails in two ways. When two state rows carry one name, the state has
  two end-of-series rows, not a single one. And the year is the frame's, not the state's:
  on a frame whose states end in different years (which the reshape never produces) a
  state that ends earlier has no end-of-series row at all.
\<close>

theorem last_pts_twin_rows:
  "ranked_long twin_table = Inr (with_rank twin_long) \<and>
   filter (\<lambda>q. comp_state q = ''New York'') (last_pts (comp_df (with_rank twin_long))) =
     [(''New York'', 2011, 8, 1), (''New York'', 2011, 4, 2)] \<and>
   last_pts [(''Florida'', 2018, 5, 2), (''Texas'', 2019, 7, 1)] = [(''Texas'', 2019, 7, 1)]"
proof -
  have a: "ranked_long twin_table = Inr (with_rank twin_long)"
    by (simp add: ranked_long_def twin_df_long)
  have b: "filter (\<lambda>q. comp_state q = ''New York'') (last_pts (comp_df (with_rank twin_long))) =
     [(''New York'', 2011, 8, 1), (''New York'', 2011, 4, 2)]" by code_simp
  have c: "last_pts [(''Florida'', 2018, 5, 2), (''Texas'', 2019, 7, 1)] = [(''Texas'', 2019, 7, 1)]"
    by code_simp
  from a b c show ?thesis by blast
qed

end
